theory Spec2Isabelle
  imports Main "HOL-Library.Word"
begin

section \<open>LibSWIFFT: the arithmetic engine of src/swifft.inl\<close>

text \<open>
  The C functions of \<^verbatim>\<open>src/swifft.inl\<close> work on caller-provided buffers through
  pointers. A buffer is modelled as a list, a pointer as an offset into it. Buffers that the
  code reads as \<^verbatim>\<open>int16_t\<close>, \<^verbatim>\<open>Z1vec\<close> or \<^verbatim>\<open>ZOvec\<close> are lists of 16-bit words and their
  offsets count 16-bit elements; the input and sign buffers are lists of bytes. A hash block
  is declared \<^verbatim>\<open>BitSequence[SWIFFT_OUTPUT_BLOCK_SIZE]\<close> and at once cast to
  \<^verbatim>\<open>ZOvec *\<close>, so that it is modelled by its 64 elements of 16 bits: two hash blocks have the
  same bytes exactly when they have the same elements. Reading or writing outside a buffer
  is undefined in C; the theorems below state the buffer sizes under which every access of
  the code stays inside.
\<close>

type_synonym int16 = "16 word"
type_synonym BitSequence = "8 word"

subsection \<open>Memory\<close>

definition load :: "'a list \<Rightarrow> nat \<Rightarrow> nat \<Rightarrow> 'a list" where
  "load mem p n = take n (drop p mem)"

definition store :: "'a list \<Rightarrow> nat \<Rightarrow> 'a list \<Rightarrow> 'a list" where
  "store mem p xs = take p mem @ xs @ drop (p + length xs) mem"

subsection \<open>Constants of the library\<close>

text \<open>Modelled from the spec: the block shapes of its section 6 (the header that defines
  these macros is not among the sources): N = 64, M = 32, an input block of 256 bytes, an
  output block of 128 bytes, a compact block of 64 bytes.\<close>

definition SWIFFT_N :: nat where
  "SWIFFT_N = 64"

definition SWIFFT_M :: nat where
  "SWIFFT_M = 32"

definition SWIFFT_INPUT_BLOCK_SIZE :: nat where
  "SWIFFT_INPUT_BLOCK_SIZE = 256"

definition SWIFFT_OUTPUT_BLOCK_SIZE :: nat where
  "SWIFFT_OUTPUT_BLOCK_SIZE = 128"

definition SWIFFT_COMPACT_BLOCK_SIZE :: nat where
  "SWIFFT_COMPACT_BLOCK_SIZE = 64"

text \<open>\<^verbatim>\<open>sizeof(int16_t)\<close>, and an output block counted in 16-bit elements.\<close>

definition sizeof_int16 :: nat where
  "sizeof_int16 = 2"

definition OUTPUT_BLOCK_ELEMS :: nat where
  "OUTPUT_BLOCK_ELEMS = SWIFFT_OUTPUT_BLOCK_SIZE div sizeof_int16"

text \<open>Modelled from the spec: the all-zeros sign block \<^verbatim>\<open>SWIFFT_sign0\<close> of its section 4.4
  (the constants module is not among the sources).\<close>

definition SWIFFT_sign0 :: "BitSequence list" where
  "SWIFFT_sign0 = replicate SWIFFT_INPUT_BLOCK_SIZE 0"

subsection \<open>The instruction-set backend\<close>

text \<open>
  \<^verbatim>\<open>swifft.inl\<close> is expanded once for every instruction set, over the macros and tables of
  \<^verbatim>\<open>libswifft/swifft_iset.inl\<close>, \<^verbatim>\<open>swifft_ops.inl\<close> and the constants module. None of them
  is among the sources, so they are the parameters of the model, collected in one record.

  Modelled from the spec: section 4.1 gives \<^verbatim>\<open>qReduce\<close>, \<^verbatim>\<open>modP\<close>, \<^verbatim>\<open>safeMult\<close> and \<^verbatim>\<open>shift\<close>
  as operations on a vector of signed 16-bit lanes that work lane by lane and do not depend
  on the lane count; each is a parameter acting on one lane. The twiddle table, the
  multiplier table and the key are tables of 16-bit elements, \<^verbatim>\<open>SWIFFT_INT16\<close> forms the
  index into the twiddle table from a sign byte and an input byte, and \<^verbatim>\<open>SWIFFT_Compact\<close>
  is a pure function of the hash block it reads (section 4.7).
\<close>

record iset =
  SWIFFT_LOG2_O :: nat
  SWIFFT_qReduce :: "int16 \<Rightarrow> int16"
  SWIFFT_modP :: "int16 \<Rightarrow> int16"
  SWIFFT_safeMult :: "int16 \<Rightarrow> int16 \<Rightarrow> int16"
  SWIFFT_shift :: "int16 \<Rightarrow> nat \<Rightarrow> int16"
  SWIFFT_INT16 :: "BitSequence \<Rightarrow> BitSequence \<Rightarrow> nat"
  SWIFFT_fftTable :: "nat \<Rightarrow> int16"
  SWIFFT_multipliers :: "nat \<Rightarrow> int16"
  SWIFFT_PI_key :: "int16 list"
  Compact :: "int16 list \<Rightarrow> BitSequence list"

text \<open>Modelled from the spec: \<^verbatim>\<open>SWIFFT_O\<close>, the number of lane columns of a \<^verbatim>\<open>ZOvec\<close>, is the
  power of two whose logarithm is \<^verbatim>\<open>SWIFFT_LOG2_O\<close>. A \<^verbatim>\<open>Z1vec\<close> has 8 lanes of 16 bits and a
  \<^verbatim>\<open>ZOvec\<close> is \<^verbatim>\<open>SWIFFT_O\<close> of them side by side.\<close>

definition SWIFFT_O :: "iset \<Rightarrow> nat" where
  "SWIFFT_O K = 2 ^ SWIFFT_LOG2_O K"

definition Z1vec_lanes :: nat where
  "Z1vec_lanes = 8"

definition ZOvec_lanes :: "iset \<Rightarrow> nat" where
  "ZOvec_lanes K = Z1vec_lanes * SWIFFT_O K"

definition sizeof_ZOvec :: "iset \<Rightarrow> nat" where
  "sizeof_ZOvec K = sizeof_int16 * ZOvec_lanes K"

text \<open>The operators \<^verbatim>\<open>+\<close>, \<^verbatim>\<open>-\<close> and \<^verbatim>\<open>*\<close> of the code on vectors: lane by lane, on 16-bit
  words, so that each wraps around modulo \<open>2 ^ 16\<close>.\<close>

definition vadd :: "int16 list \<Rightarrow> int16 list \<Rightarrow> int16 list" where
  "vadd a b = map2 (+) a b"

definition vsub :: "int16 list \<Rightarrow> int16 list \<Rightarrow> int16 list" where
  "vsub a b = map2 (-) a b"

definition vmul :: "int16 list \<Rightarrow> int16 list \<Rightarrow> int16 list" where
  "vmul a b = map2 (*) a b"

text \<open>The kernel macros on vectors.\<close>

definition qReduce :: "iset \<Rightarrow> int16 list \<Rightarrow> int16 list" where
  "qReduce K v = map (SWIFFT_qReduce K) v"

definition modP :: "iset \<Rightarrow> int16 list \<Rightarrow> int16 list" where
  "modP K v = map (SWIFFT_modP K) v"

definition safeMult :: "iset \<Rightarrow> int16 list \<Rightarrow> int16 list \<Rightarrow> int16 list" where
  "safeMult K a b = map2 (SWIFFT_safeMult K) a b"

definition shift :: "iset \<Rightarrow> int16 list \<Rightarrow> nat \<Rightarrow> int16 list" where
  "shift K v s = map (\<lambda>x. SWIFFT_shift K x s) v"

text \<open>Modelled from the spec: \<^verbatim>\<open>AddSub(a, b)\<close> replaces \<open>(a, b)\<close> by \<open>(a + b, a - b)\<close>
  (section 4.1), and \<^verbatim>\<open>ZOCONST(c)\<close> repeats the constant over all lanes (section 4.5).\<close>

definition AddSub :: "int16 list \<Rightarrow> int16 list \<Rightarrow> int16 list \<times> int16 list" where
  "AddSub a b = (vadd a b, vsub a b)"

definition ZOCONST :: "iset \<Rightarrow> int16 \<Rightarrow> int16 list" where
  "ZOCONST K c = replicate (ZOvec_lanes K) c"

text \<open>The casts \<^verbatim>\<open>(const Z1vec *) SWIFFT_fftTable\<close> and \<^verbatim>\<open>(const Z1vec *) SWIFFT_multipliers\<close>:
  entry \<open>i\<close> is the 8 lanes from element \<open>8 * i\<close> on.\<close>

definition Tabl :: "iset \<Rightarrow> nat \<Rightarrow> int16 list" where
  "Tabl K i = map (\<lambda>l. SWIFFT_fftTable K (Z1vec_lanes * i + l)) [0..<Z1vec_lanes]"

definition Mult :: "iset \<Rightarrow> nat \<Rightarrow> int16 list" where
  "Mult K i = map (\<lambda>l. SWIFFT_multipliers K (Z1vec_lanes * i + l)) [0..<Z1vec_lanes]"


text \<open>A local array that the code declares without initialising it holds whatever the
  stack held: \<open>junk\<close> gives that content, element by element.\<close>

definition uninit :: "(nat \<Rightarrow> 'a) \<Rightarrow> nat \<Rightarrow> 'a list" where
  "uninit junk n = map junk [0..<n]"

subsection \<open>The FFT phase: \<^verbatim>\<open>SWIFFT_fft_\<close>\<close>

text \<open>
  The pointers \<open>t\<close>, \<open>u\<close> and \<open>out\<close> of the code are offsets into \<open>input\<close>, \<open>sign\<close> and
  \<open>fftout\<close>; \<open>v\<close> is the local array of 8 \<^verbatim>\<open>ZOvec\<close>. The macro \<^verbatim>\<open>SWIFFT_AddSub(v[a],v[b])\<close>
  updates both of its arguments in place. The exported names of the code end in an
  underscore (\<^verbatim>\<open>SWIFFT_fft_\<close>, to which the instruction set's suffix is appended); the
  definitions here drop it.
\<close>

definition fft_load_column ::
  "iset \<Rightarrow> BitSequence list \<Rightarrow> BitSequence list \<Rightarrow> nat \<Rightarrow>
   nat \<times> nat \<times> int16 list list \<Rightarrow> nat \<times> nat \<times> int16 list list" where
  "fft_load_column K input sign j = (\<lambda>(t, u, v).
     let v = v[0 := store (v ! 0) (Z1vec_lanes * j)
                 (Tabl K (SWIFFT_INT16 K (sign ! (u + 0)) (input ! (t + 0))))];
         v = fold (\<lambda>k v. v[k := store (v ! k) (Z1vec_lanes * j)
                 (vmul (Tabl K (SWIFFT_INT16 K (sign ! (u + k)) (input ! (t + k)))) (Mult K k))])
               [1..<8] v
     in (t + 8, u + 8, v))"

definition SWIFFT_AddSub :: "nat \<Rightarrow> nat \<Rightarrow> int16 list list \<Rightarrow> int16 list list" where
  "SWIFFT_AddSub a b v = (let (x, y) = AddSub (v ! a) (v ! b) in v[a := x, b := y])"

definition fft_butterflies :: "iset \<Rightarrow> int16 list list \<Rightarrow> int16 list list" where
  "fft_butterflies K v0 =
    (let v = SWIFFT_AddSub 0 1 v0;
         v = SWIFFT_AddSub 2 3 v;
         v = SWIFFT_AddSub 4 5 v;
         v = SWIFFT_AddSub 6 7 v;
         v = v[2 := qReduce K (v ! 2)];
         v = v[3 := shift K (v ! 3) 4];
         v = v[6 := qReduce K (v ! 6)];
         v = v[7 := shift K (v ! 7) 4];
         v = SWIFFT_AddSub 0 2 v;
         v = SWIFFT_AddSub 1 3 v;
         v = SWIFFT_AddSub 4 6 v;
         v = SWIFFT_AddSub 5 7 v;
         v = v[4 := qReduce K (v ! 4)];
         v = v[5 := shift K (v ! 5) 2];
         v = v[6 := shift K (v ! 6) 4];
         v = v[7 := shift K (v ! 7) 6];
         v = SWIFFT_AddSub 0 4 v;
         v = SWIFFT_AddSub 1 5 v;
         v = SWIFFT_AddSub 2 6 v;
         v = SWIFFT_AddSub 3 7 v
     in fold (\<lambda>k v. v[k := qReduce K (v ! k)]) [0..<8] v)"

definition fft_store_column ::
  "int16 list list \<Rightarrow> nat \<Rightarrow> nat \<times> int16 list \<Rightarrow> nat \<times> int16 list" where
  "fft_store_column v j = (\<lambda>(out, mem).
     (out + 8 * Z1vec_lanes,
      fold (\<lambda>k mem. store mem (out + Z1vec_lanes * k) (load (v ! k) (Z1vec_lanes * j) Z1vec_lanes))
        [0..<8] mem))"

definition fft_group ::
  "iset \<Rightarrow> BitSequence list \<Rightarrow> BitSequence list \<Rightarrow>
   nat \<times> nat \<times> nat \<times> int16 list list \<times> int16 list \<Rightarrow>
   nat \<times> nat \<times> nat \<times> int16 list list \<times> int16 list" where
  "fft_group K input sign = (\<lambda>(t, u, out, v, mem).
     let (t, u, v) = fold (fft_load_column K input sign) [0..<SWIFFT_O K] (t, u, v);
         v = fft_butterflies K v;
         (out, mem) = fold (fft_store_column v) [0..<SWIFFT_O K] (out, mem)
     in (t, u, out, v, mem))"

definition SWIFFT_fft ::
  "iset \<Rightarrow> (nat \<Rightarrow> int16) \<Rightarrow> BitSequence list \<Rightarrow> nat \<Rightarrow> BitSequence list \<Rightarrow> nat \<Rightarrow> int \<Rightarrow>
   int16 list \<Rightarrow> nat \<Rightarrow> int16 list" where
  "SWIFFT_fft K junk input pin sign psg m fftout pout =
    (let v = map (\<lambda>k. uninit (\<lambda>l. junk (k * ZOvec_lanes K + l)) (ZOvec_lanes K)) [0..<8];
         (t, u, out, v, mem) =
           fold (\<lambda>i. fft_group K input sign) [0..<nat (m div 2 ^ SWIFFT_LOG2_O K)]
             (pin, psg, pout, v, fftout)
     in mem)"

subsection \<open>The FFT-sum phase: \<^verbatim>\<open>SWIFFT_fftsum_\<close>\<close>

definition fftsum_row ::
  "iset \<Rightarrow> int16 list \<Rightarrow> int16 list \<Rightarrow> nat \<times> nat \<times> int16 list list \<Rightarrow>
   nat \<times> nat \<times> int16 list list" where
  "fftsum_row K ikey ifftout = (\<lambda>(fftout, key, v).
     (fftout + (8 div 2 ^ SWIFFT_LOG2_O K) * ZOvec_lanes K,
      key + (8 div 2 ^ SWIFFT_LOG2_O K) * ZOvec_lanes K,
      fold (\<lambda>j v. v[j := vadd (v ! j)
              (qReduce K (safeMult K (load ifftout (fftout + j * ZOvec_lanes K) (ZOvec_lanes K))
                                     (load ikey (key + j * ZOvec_lanes K) (ZOvec_lanes K))))])
        [0..<8 div 2 ^ SWIFFT_LOG2_O K] v))"

definition SWIFFT_fftsum ::
  "iset \<Rightarrow> int16 list \<Rightarrow> nat \<Rightarrow> int16 list \<Rightarrow> nat \<Rightarrow> int \<Rightarrow> int16 list \<Rightarrow> nat \<Rightarrow> int16 list" where
  "SWIFFT_fftsum K ikey pkey ifftout pfft m iout pout =
    (let v = replicate (8 div 2 ^ SWIFFT_LOG2_O K) (replicate (ZOvec_lanes K) 0);
         (fftout, key, v) = fold (\<lambda>i. fftsum_row K ikey ifftout) [0..<nat m] (pfft, pkey, v)
     in fold (\<lambda>j mem. store mem (pout + j * ZOvec_lanes K) (modP K (v ! j)))
          [0..<8 div 2 ^ SWIFFT_LOG2_O K] iout)"


subsection \<open>The element-wise hash algebra\<close>

text \<open>Each function walks the hash block with a \<^verbatim>\<open>ZOvec\<close> pointer that it increments
  (\<open>zoutput\<close>, and \<open>zoperand\<close> where the operand is a hash block), for
  \<^verbatim>\<open>SWIFFT_OUTPUT_BLOCK_SIZE/sizeof(ZOvec)\<close> steps.\<close>

definition SWIFFT_ConstSet :: "iset \<Rightarrow> int16 list \<Rightarrow> nat \<Rightarrow> int16 \<Rightarrow> int16 list" where
  "SWIFFT_ConstSet K output pout operand =
    (let zoperand = ZOCONST K operand;
         zoperand = modP K zoperand;
         size = SWIFFT_OUTPUT_BLOCK_SIZE div sizeof_ZOvec K
     in snd (fold (\<lambda>i (zoutput, mem). (zoutput + ZOvec_lanes K, store mem zoutput zoperand))
               [0..<size] (pout, output)))"

definition SWIFFT_ConstAdd :: "iset \<Rightarrow> int16 list \<Rightarrow> nat \<Rightarrow> int16 \<Rightarrow> int16 list" where
  "SWIFFT_ConstAdd K output pout operand =
    (let zoperand = ZOCONST K operand;
         size = SWIFFT_OUTPUT_BLOCK_SIZE div sizeof_ZOvec K
     in snd (fold (\<lambda>i (zoutput, mem). (zoutput + ZOvec_lanes K,
                 store mem zoutput (modP K (vadd (load mem zoutput (ZOvec_lanes K)) zoperand))))
               [0..<size] (pout, output)))"

definition SWIFFT_ConstSub :: "iset \<Rightarrow> int16 list \<Rightarrow> nat \<Rightarrow> int16 \<Rightarrow> int16 list" where
  "SWIFFT_ConstSub K output pout operand =
    (let zoperand = ZOCONST K operand;
         size = SWIFFT_OUTPUT_BLOCK_SIZE div sizeof_ZOvec K
     in snd (fold (\<lambda>i (zoutput, mem). (zoutput + ZOvec_lanes K,
                 store mem zoutput (modP K (vsub (load mem zoutput (ZOvec_lanes K)) zoperand))))
               [0..<size] (pout, output)))"

definition SWIFFT_ConstMul :: "iset \<Rightarrow> int16 list \<Rightarrow> nat \<Rightarrow> int16 \<Rightarrow> int16 list" where
  "SWIFFT_ConstMul K output pout operand =
    (let zoperand = ZOCONST K operand;
         size = SWIFFT_OUTPUT_BLOCK_SIZE div sizeof_ZOvec K
     in snd (fold (\<lambda>i (zoutput, mem). (zoutput + ZOvec_lanes K,
                 store mem zoutput (modP K (vmul (load mem zoutput (ZOvec_lanes K)) zoperand))))
               [0..<size] (pout, output)))"

text \<open>\<^verbatim>\<open>memcpy\<close> of \<^verbatim>\<open>SWIFFT_OUTPUT_BLOCK_SIZE\<close> bytes, which are \<open>OUTPUT_BLOCK_ELEMS\<close> elements.\<close>

definition SWIFFT_Set :: "int16 list \<Rightarrow> nat \<Rightarrow> int16 list \<Rightarrow> nat \<Rightarrow> int16 list" where
  "SWIFFT_Set output pout operand popd = store output pout (load operand popd OUTPUT_BLOCK_ELEMS)"

definition SWIFFT_Add :: "iset \<Rightarrow> int16 list \<Rightarrow> nat \<Rightarrow> int16 list \<Rightarrow> nat \<Rightarrow> int16 list" where
  "SWIFFT_Add K output pout operand popd =
    (let size = SWIFFT_OUTPUT_BLOCK_SIZE div sizeof_ZOvec K
     in snd (snd (fold (\<lambda>i (zoperand, zoutput, mem).
                 (zoperand + ZOvec_lanes K, zoutput + ZOvec_lanes K,
                  store mem zoutput (modP K (vadd (load mem zoutput (ZOvec_lanes K))
                                                  (load operand zoperand (ZOvec_lanes K))))))
               [0..<size] (popd, pout, output))))"

definition SWIFFT_Sub :: "iset \<Rightarrow> int16 list \<Rightarrow> nat \<Rightarrow> int16 list \<Rightarrow> nat \<Rightarrow> int16 list" where
  "SWIFFT_Sub K output pout operand popd =
    (let size = SWIFFT_OUTPUT_BLOCK_SIZE div sizeof_ZOvec K
     in snd (snd (fold (\<lambda>i (zoperand, zoutput, mem).
                 (zoperand + ZOvec_lanes K, zoutput + ZOvec_lanes K,
                  store mem zoutput (modP K (vsub (load mem zoutput (ZOvec_lanes K))
                                                  (load operand zoperand (ZOvec_lanes K))))))
               [0..<size] (popd, pout, output))))"

definition SWIFFT_Mul :: "iset \<Rightarrow> int16 list \<Rightarrow> nat \<Rightarrow> int16 list \<Rightarrow> nat \<Rightarrow> int16 list" where
  "SWIFFT_Mul K output pout operand popd =
    (let size = SWIFFT_OUTPUT_BLOCK_SIZE div sizeof_ZOvec K
     in snd (snd (fold (\<lambda>i (zoperand, zoutput, mem).
                 (zoperand + ZOvec_lanes K, zoutput + ZOvec_lanes K,
                  store mem zoutput (modP K (vmul (load mem zoutput (ZOvec_lanes K))
                                                  (load operand zoperand (ZOvec_lanes K))))))
               [0..<size] (popd, pout, output))))"

subsection \<open>The compression facade\<close>

text \<open>\<^verbatim>\<open>SWIFFT_compute\<close> declares the scratch \<^verbatim>\<open>int16_t fftout[SWIFFT_N*SWIFFT_M]\<close> on the
  stack, without initialising it.\<close>

definition SWIFFT_compute ::
  "iset \<Rightarrow> (nat \<Rightarrow> int16) \<Rightarrow> BitSequence list \<Rightarrow> nat \<Rightarrow> BitSequence list \<Rightarrow> nat \<Rightarrow>
   int16 list \<Rightarrow> nat \<Rightarrow> int16 list" where
  "SWIFFT_compute K junk input pin sign psg output pout =
    (let fftout = uninit junk (SWIFFT_N * SWIFFT_M);
         fftout = SWIFFT_fft K junk input pin sign psg (int SWIFFT_M) fftout 0
     in SWIFFT_fftsum K (SWIFFT_PI_key K) 0 fftout 0 (int SWIFFT_M) output pout)"

definition SWIFFT_Compute ::
  "iset \<Rightarrow> (nat \<Rightarrow> int16) \<Rightarrow> BitSequence list \<Rightarrow> nat \<Rightarrow> int16 list \<Rightarrow> nat \<Rightarrow> int16 list" where
  "SWIFFT_Compute K junk input pin output pout =
     SWIFFT_compute K junk input pin SWIFFT_sign0 0 output pout"

definition SWIFFT_ComputeSigned ::
  "iset \<Rightarrow> (nat \<Rightarrow> int16) \<Rightarrow> BitSequence list \<Rightarrow> nat \<Rightarrow> BitSequence list \<Rightarrow> nat \<Rightarrow>
   int16 list \<Rightarrow> nat \<Rightarrow> int16 list" where
  "SWIFFT_ComputeSigned K junk input pin sign psg output pout =
     SWIFFT_compute K junk input pin sign psg output pout"


subsection \<open>The batched driver\<close>

text \<open>
  Each batched function is the loop \<^verbatim>\<open>for (i=0; i<nblocks; i++)\<close> around a call of the
  single-block function on pointers advanced by the block's offset. The loop is modelled as
  the code runs it without OpenMP, in the order of the block index.

  The counter \<open>i\<close> is an \<^verbatim>\<open>int\<close> and so are the block sizes, so that the offsets
  \<^verbatim>\<open>i * SWIFFT_INPUT_BLOCK_SIZE\<close>, \<^verbatim>\<open>i * SWIFFT_OUTPUT_BLOCK_SIZE\<close>,
  \<^verbatim>\<open>i * SWIFFT_COMPACT_BLOCK_SIZE\<close> and \<^verbatim>\<open>i * SWIFFT_N * SWIFFT_M\<close> are products of \<^verbatim>\<open>int\<close>s,
  32 bits wide. A product outside the range of \<^verbatim>\<open>int\<close> is undefined in C: \<open>int_mul\<close> is
  \<open>None\<close> there, and a batched function whose loop meets one returns \<open>None\<close>. With the
  largest stride, \<open>SWIFFT_N * SWIFFT_M = 2048\<close>, this happens from \<open>i = 2 ^ 20\<close> on. The
  offset \<^verbatim>\<open>i * (SWIFFT_OUTPUT_BLOCK_SIZE / sizeof(int16_t))\<close> of \<^verbatim>\<open>SWIFFT_fftsumMultiple_\<close>
  is a product in \<^verbatim>\<open>size_t\<close>, the type of \<^verbatim>\<open>sizeof\<close>, which is unsigned and wraps around; it is
  taken as 64 bits wide.

  The offsets on hash blocks are written in bytes (\<^verbatim>\<open>i * SWIFFT_OUTPUT_BLOCK_SIZE\<close> on a
  \<^verbatim>\<open>BitSequence *\<close>); \<open>hash_at\<close> gives the offset in 16-bit elements.
\<close>

definition INT_MAX :: int where
  "INT_MAX = 2 ^ 31 - 1"

definition INT_MIN :: int where
  "INT_MIN = - (2 ^ 31)"

definition int_mul :: "int \<Rightarrow> int \<Rightarrow> int option" where
  "int_mul a b = (if INT_MIN \<le> a * b \<and> a * b \<le> INT_MAX then Some (a * b) else None)"

definition size_t_mul :: "nat \<Rightarrow> nat \<Rightarrow> nat" where
  "size_t_mul a b = (a * b) mod 2 ^ 64"

definition hash_at :: "int \<Rightarrow> nat" where
  "hash_at off = nat off div sizeof_int16"

definition for_blocks :: "int \<Rightarrow> (int \<Rightarrow> 'a \<Rightarrow> 'a option) \<Rightarrow> 'a \<Rightarrow> 'a option" where
  "for_blocks nblocks body mem =
     fold (\<lambda>i r. Option.bind r (body (int i))) [0..<nat nblocks] (Some mem)"


definition SWIFFT_fftMultiple ::
  "iset \<Rightarrow> (nat \<Rightarrow> int16) \<Rightarrow> int \<Rightarrow> BitSequence list \<Rightarrow> BitSequence list \<Rightarrow> int \<Rightarrow>
   int16 list \<Rightarrow> int16 list option" where
  "SWIFFT_fftMultiple K junk nblocks input sign m fftout =
     for_blocks nblocks (\<lambda>i mem.
       Option.bind (int_mul i (int SWIFFT_INPUT_BLOCK_SIZE)) (\<lambda>pin.
       Option.bind (int_mul i (int SWIFFT_INPUT_BLOCK_SIZE)) (\<lambda>psg.
       Option.bind (Option.bind (int_mul i (int SWIFFT_N)) (\<lambda>a. int_mul a (int SWIFFT_M))) (\<lambda>pout.
         Some (SWIFFT_fft K junk input (nat pin) sign (nat psg) m mem (nat pout))))))
       fftout"

definition SWIFFT_fftsumMultiple ::
  "iset \<Rightarrow> int \<Rightarrow> int16 list \<Rightarrow> int16 list \<Rightarrow> int \<Rightarrow> int16 list \<Rightarrow> int16 list option" where
  "SWIFFT_fftsumMultiple K nblocks ikey ifftout m iout =
     for_blocks nblocks (\<lambda>i mem.
       Option.bind (Option.bind (int_mul i (int SWIFFT_N)) (\<lambda>a. int_mul a (int SWIFFT_M))) (\<lambda>pfft.
         Some (SWIFFT_fftsum K ikey 0 ifftout (nat pfft) m
                 mem (size_t_mul (nat i) (SWIFFT_OUTPUT_BLOCK_SIZE div sizeof_int16)))))
       iout"


definition SWIFFT_ConstSetMultiple ::
  "iset \<Rightarrow> int \<Rightarrow> int16 list \<Rightarrow> int16 list \<Rightarrow> int16 list option" where
  "SWIFFT_ConstSetMultiple K nblocks output operand =
     for_blocks nblocks (\<lambda>i mem.
       Option.bind (int_mul i (int SWIFFT_OUTPUT_BLOCK_SIZE)) (\<lambda>pout.
         Some (SWIFFT_ConstSet K mem (hash_at pout) (operand ! nat i))))
       output"

definition SWIFFT_ConstAddMultiple ::
  "iset \<Rightarrow> int \<Rightarrow> int16 list \<Rightarrow> int16 list \<Rightarrow> int16 list option" where
  "SWIFFT_ConstAddMultiple K nblocks output operand =
     for_blocks nblocks (\<lambda>i mem.
       Option.bind (int_mul i (int SWIFFT_OUTPUT_BLOCK_SIZE)) (\<lambda>pout.
         Some (SWIFFT_ConstAdd K mem (hash_at pout) (operand ! nat i))))
       output"

definition SWIFFT_ConstSubMultiple ::
  "iset \<Rightarrow> int \<Rightarrow> int16 list \<Rightarrow> int16 list \<Rightarrow> int16 list option" where
  "SWIFFT_ConstSubMultiple K nblocks output operand =
     for_blocks nblocks (\<lambda>i mem.
       Option.bind (int_mul i (int SWIFFT_OUTPUT_BLOCK_SIZE)) (\<lambda>pout.
         Some (SWIFFT_ConstSub K mem (hash_at pout) (operand ! nat i))))
       output"

definition SWIFFT_ConstMulMultiple ::
  "iset \<Rightarrow> int \<Rightarrow> int16 list \<Rightarrow> int16 list \<Rightarrow> int16 list option" where
  "SWIFFT_ConstMulMultiple K nblocks output operand =
     for_blocks nblocks (\<lambda>i mem.
       Option.bind (int_mul i (int SWIFFT_OUTPUT_BLOCK_SIZE)) (\<lambda>pout.
         Some (SWIFFT_ConstMul K mem (hash_at pout) (operand ! nat i))))
       output"

definition SWIFFT_SetMultiple :: "int \<Rightarrow> int16 list \<Rightarrow> int16 list \<Rightarrow> int16 list option" where
  "SWIFFT_SetMultiple nblocks output operand =
     for_blocks nblocks (\<lambda>i mem.
       Option.bind (int_mul i (int SWIFFT_OUTPUT_BLOCK_SIZE)) (\<lambda>pout.
       Option.bind (int_mul i (int SWIFFT_OUTPUT_BLOCK_SIZE)) (\<lambda>popd.
         Some (SWIFFT_Set mem (hash_at pout) operand (hash_at popd)))))
       output"

definition SWIFFT_AddMultiple ::
  "iset \<Rightarrow> int \<Rightarrow> int16 list \<Rightarrow> int16 list \<Rightarrow> int16 list option" where
  "SWIFFT_AddMultiple K nblocks output operand =
     for_blocks nblocks (\<lambda>i mem.
       Option.bind (int_mul i (int SWIFFT_OUTPUT_BLOCK_SIZE)) (\<lambda>pout.
       Option.bind (int_mul i (int SWIFFT_OUTPUT_BLOCK_SIZE)) (\<lambda>popd.
         Some (SWIFFT_Add K mem (hash_at pout) operand (hash_at popd)))))
       output"

definition SWIFFT_SubMultiple ::
  "iset \<Rightarrow> int \<Rightarrow> int16 list \<Rightarrow> int16 list \<Rightarrow> int16 list option" where
  "SWIFFT_SubMultiple K nblocks output operand =
     for_blocks nblocks (\<lambda>i mem.
       Option.bind (int_mul i (int SWIFFT_OUTPUT_BLOCK_SIZE)) (\<lambda>pout.
       Option.bind (int_mul i (int SWIFFT_OUTPUT_BLOCK_SIZE)) (\<lambda>popd.
         Some (SWIFFT_Sub K mem (hash_at pout) operand (hash_at popd)))))
       output"

definition SWIFFT_MulMultiple ::
  "iset \<Rightarrow> int \<Rightarrow> int16 list \<Rightarrow> int16 list \<Rightarrow> int16 list option" where
  "SWIFFT_MulMultiple K nblocks output operand =
     for_blocks nblocks (\<lambda>i mem.
       Option.bind (int_mul i (int SWIFFT_OUTPUT_BLOCK_SIZE)) (\<lambda>pout.
       Option.bind (int_mul i (int SWIFFT_OUTPUT_BLOCK_SIZE)) (\<lambda>popd.
         Some (SWIFFT_Mul K mem (hash_at pout) operand (hash_at popd)))))
       output"

definition SWIFFT_ComputeMultiple ::
  "iset \<Rightarrow> (nat \<Rightarrow> int16) \<Rightarrow> int \<Rightarrow> BitSequence list \<Rightarrow> int16 list \<Rightarrow> int16 list option" where
  "SWIFFT_ComputeMultiple K junk nblocks input output =
     for_blocks nblocks (\<lambda>i mem.
       Option.bind (int_mul i (int SWIFFT_INPUT_BLOCK_SIZE)) (\<lambda>pin.
       Option.bind (int_mul i (int SWIFFT_OUTPUT_BLOCK_SIZE)) (\<lambda>pout.
         Some (SWIFFT_compute K junk input (nat pin) SWIFFT_sign0 0 mem (hash_at pout)))))
       output"

definition SWIFFT_ComputeMultipleSigned ::
  "iset \<Rightarrow> (nat \<Rightarrow> int16) \<Rightarrow> int \<Rightarrow> BitSequence list \<Rightarrow> BitSequence list \<Rightarrow> int16 list \<Rightarrow>
   int16 list option" where
  "SWIFFT_ComputeMultipleSigned K junk nblocks input sign output =
     for_blocks nblocks (\<lambda>i mem.
       Option.bind (int_mul i (int SWIFFT_INPUT_BLOCK_SIZE)) (\<lambda>pin.
       Option.bind (int_mul i (int SWIFFT_INPUT_BLOCK_SIZE)) (\<lambda>psg.
       Option.bind (int_mul i (int SWIFFT_OUTPUT_BLOCK_SIZE)) (\<lambda>pout.
         Some (SWIFFT_compute K junk input (nat pin) sign (nat psg) mem (hash_at pout))))))
       output"

text \<open>A batch of \<open>nblocks\<close> blocks whose offsets \<open>i * stride\<close>, for \<open>0 \<le> i < nblocks\<close>, are all
  in the range of \<^verbatim>\<open>int\<close>.\<close>

definition strides_fit :: "int \<Rightarrow> nat \<Rightarrow> bool" where
  "strides_fit nblocks stride = ((nblocks - 1) * int stride \<le> INT_MAX)"


section \<open>Reference definitions, following the words of the specification\<close>

subsection \<open>The schedule of the FFT phase\<close>

text \<open>
  Row \<open>k\<close> of lane column \<open>c\<close> is loaded as \<open>T[sign[k], input[k]] * M[k]\<close> from the 8 bytes of
  the column, with row 0 skipping the multiplier. A group is \<^verbatim>\<open>SWIFFT_O\<close> columns; its 8 rows
  go through the three butterfly stages with the reductions and rotations in between, then
  through the final reduction, and are stored column by column, the 8 rows of a column side
  by side. The phase is the groups \<open>0\<close> to \<open>m / O - 1\<close> one after the other.
\<close>

definition fft_spec_load ::
  "iset \<Rightarrow> BitSequence list \<Rightarrow> BitSequence list \<Rightarrow> nat \<Rightarrow> nat \<Rightarrow> int16 list" where
  "fft_spec_load K input sign c k =
     (let T = Tabl K (SWIFFT_INT16 K (sign ! (8 * c + k)) (input ! (8 * c + k)))
      in if k = 0 then T else vmul T (Mult K k))"

definition fft_spec_rows ::
  "iset \<Rightarrow> BitSequence list \<Rightarrow> BitSequence list \<Rightarrow> nat \<Rightarrow> int16 list list" where
  "fft_spec_rows K input sign g =
     map (\<lambda>k. concat (map (\<lambda>j. fft_spec_load K input sign (g * SWIFFT_O K + j) k) [0..<SWIFFT_O K]))
       [0..<8]"

definition fft_spec_schedule :: "iset \<Rightarrow> int16 list list \<Rightarrow> int16 list list" where
  "fft_spec_schedule K r =
    (let (a0, a1) = AddSub (r ! 0) (r ! 1);
         (a2, a3) = AddSub (r ! 2) (r ! 3);
         (a4, a5) = AddSub (r ! 4) (r ! 5);
         (a6, a7) = AddSub (r ! 6) (r ! 7);
         a2 = qReduce K a2; a3 = shift K a3 4; a6 = qReduce K a6; a7 = shift K a7 4;
         (a0, a2) = AddSub a0 a2;
         (a1, a3) = AddSub a1 a3;
         (a4, a6) = AddSub a4 a6;
         (a5, a7) = AddSub a5 a7;
         a4 = qReduce K a4; a5 = shift K a5 2; a6 = shift K a6 4; a7 = shift K a7 6;
         (a0, a4) = AddSub a0 a4;
         (a1, a5) = AddSub a1 a5;
         (a2, a6) = AddSub a2 a6;
         (a3, a7) = AddSub a3 a7
     in map (qReduce K) [a0, a1, a2, a3, a4, a5, a6, a7])"

definition fft_spec_store :: "iset \<Rightarrow> int16 list list \<Rightarrow> int16 list" where
  "fft_spec_store K v =
     concat (map (\<lambda>j. concat (map (\<lambda>k. load (v ! k) (8 * j) 8) [0..<8])) [0..<SWIFFT_O K])"

definition fft_spec ::
  "iset \<Rightarrow> BitSequence list \<Rightarrow> BitSequence list \<Rightarrow> nat \<Rightarrow> int16 list" where
  "fft_spec K input sign m =
     concat (map (\<lambda>g. fft_spec_store K (fft_spec_schedule K (fft_spec_rows K input sign g)))
               [0..<m div SWIFFT_O K])"

subsection \<open>The FFT-sum phase\<close>

text \<open>
  An accumulator of \<open>8 / O\<close> lane vectors starts at 0; for \<open>i\<close> from 0 to \<open>m - 1\<close> and \<open>j\<close> from
  0 to \<open>8 / O - 1\<close> it accumulates \<open>qReduce (safeMult (fftout[i, j], key[i, j]))\<close>, where
  \<open>[i, j]\<close> is lane vector \<open>j\<close> of row \<open>i\<close>; then \<open>modP\<close> is applied lane by lane and the lane
  vectors, 64 elements, are the output.
\<close>

definition lane_vector :: "iset \<Rightarrow> int16 list \<Rightarrow> nat \<Rightarrow> nat \<Rightarrow> int16 list" where
  "lane_vector K buf i j =
     load buf ((i * (8 div SWIFFT_O K) + j) * ZOvec_lanes K) (ZOvec_lanes K)"

definition fftsum_spec_acc :: "iset \<Rightarrow> int16 list \<Rightarrow> int16 list \<Rightarrow> nat \<Rightarrow> int16 list list" where
  "fftsum_spec_acc K key fftout m =
     fold (\<lambda>i acc.
        fold (\<lambda>j acc. acc[j := vadd (acc ! j)
                (qReduce K (safeMult K (lane_vector K fftout i j) (lane_vector K key i j)))])
          [0..<8 div SWIFFT_O K] acc)
       [0..<m] (replicate (8 div SWIFFT_O K) (replicate (ZOvec_lanes K) 0))"

definition fftsum_spec :: "iset \<Rightarrow> int16 list \<Rightarrow> int16 list \<Rightarrow> nat \<Rightarrow> int16 list" where
  "fftsum_spec K key fftout m = concat (map (modP K) (fftsum_spec_acc K key fftout m))"

subsection \<open>Blocks of a batch\<close>

text \<open>Slice \<open>i\<close> of an array of blocks of \<open>B\<close> elements each, and the array that holds the
  results \<open>f 0\<close>, ..., \<open>f (n - 1)\<close> in its first \<open>n\<close> blocks and is \<open>mem\<close> beyond them.\<close>

definition block_of :: "nat \<Rightarrow> 'a list \<Rightarrow> nat \<Rightarrow> 'a list" where
  "block_of B mem i = load mem (i * B) B"

definition blockwise :: "nat \<Rightarrow> nat \<Rightarrow> (nat \<Rightarrow> 'a list) \<Rightarrow> 'a list \<Rightarrow> 'a list" where
  "blockwise n B f mem = concat (map f [0..<n]) @ drop (n * B) mem"

subsection \<open>Well-formed parameters\<close>

text \<open>The lane layouts for which the code is written: a \<^verbatim>\<open>ZOvec\<close> of 1, 2, 4 or 8 columns, so
  that \<^verbatim>\<open>8 >> SWIFFT_LOG2_O\<close> lane vectors make a hash block.\<close>

definition iset_ok :: "iset \<Rightarrow> bool" where
  "iset_ok K = (SWIFFT_LOG2_O K \<le> 3)"


subsection \<open>The canonical reduction, and an instance of the parameters\<close>

text \<open>Modelled from the spec: \<^verbatim>\<open>modP\<close> is the full canonical reduction modulo \<open>p = 257\<close> of a
  signed 16-bit lane (section 4.1 and the glossary; \<^verbatim>\<open>swifft_ops.inl\<close> is not among the
  sources). The spec leaves the residue system open between \<open>{0, \<dots>, 256}\<close> and the centred
  one: \<open>modP_sys lo\<close> reduces into \<open>{lo, \<dots>, lo + 256}\<close>, so that \<open>lo = 0\<close> and \<open>lo = - 128\<close>
  are the two.\<close>

definition SWIFFT_P :: int where
  "SWIFFT_P = 257"

definition modP_sys :: "int \<Rightarrow> int16 \<Rightarrow> int16" where
  "modP_sys lo x = word_of_int (lo + (sint x - lo) mod SWIFFT_P)"


text \<open>A result of signed 16-bit arithmetic that has not wrapped around.\<close>

definition in_int16 :: "int \<Rightarrow> bool" where
  "in_int16 z = (- (2 ^ 15) \<le> z \<and> z < 2 ^ 15)"

text \<open>An instance of the parameters, on which the theorems are run at concrete inputs:
  \<open>2 ^ L\<close> lane columns and \<^verbatim>\<open>modP\<close> as above. The other fields are sample values and not the
  library's tables; the theorems hold for every value of them.\<close>

definition sample_iset :: "nat \<Rightarrow> int \<Rightarrow> iset" where
  "sample_iset L lo =
     \<lparr>SWIFFT_LOG2_O = L,
      SWIFFT_qReduce = modP_sys lo,
      SWIFFT_modP = modP_sys lo,
      SWIFFT_safeMult = (\<lambda>a b. a * b),
      SWIFFT_shift = (\<lambda>x s. x * 2 ^ s),
      SWIFFT_INT16 = (\<lambda>u t. 256 * unat u + unat t),
      SWIFFT_fftTable = (\<lambda>i. word_of_nat i),
      SWIFFT_multipliers = (\<lambda>i. word_of_nat (i + 1)),
      SWIFFT_PI_key = map word_of_nat [0..<SWIFFT_N * SWIFFT_M],
      Compact = (\<lambda>h. map ucast h)\<rparr>"

text \<open>What one column of the load loop stores in row \<open>k\<close>, read from the pointers \<open>t\<close> and
  \<open>u\<close>; it names the two assignments of the loop body in the proofs.\<close>

definition fft_entry ::
  "iset \<Rightarrow> BitSequence list \<Rightarrow> BitSequence list \<Rightarrow> nat \<Rightarrow> nat \<Rightarrow> nat \<Rightarrow> int16 list" where
  "fft_entry K input sign t u k =
     (if k = 0 then Tabl K (SWIFFT_INT16 K (sign ! (u + 0)) (input ! (t + 0)))
      else vmul (Tabl K (SWIFFT_INT16 K (sign ! (u + k)) (input ! (t + k)))) (Mult K k))"

text \<open>The canonical residue system that \<^verbatim>\<open>modP\<close> chooses is the set of the values it returns;
  a canonical hash block is 64 elements of it.\<close>

definition canonical_block :: "iset \<Rightarrow> int16 list \<Rightarrow> bool" where
  "canonical_block K h = (length h = OUTPUT_BLOCK_ELEMS \<and> set h \<subseteq> range (SWIFFT_modP K))"


section \<open>Memory and loops\<close>

lemma length_load: "p + n \<le> length mem \<Longrightarrow> length (load mem p n) = n"
  by (simp add: load_def)

lemma length_store: "p + length xs \<le> length mem \<Longrightarrow> length (store mem p xs) = length mem"
  by (simp add: store_def)

lemma store_Nil: "store mem p [] = mem"
  by (simp add: store_def)

lemma store_append:
  "p \<le> length mem \<Longrightarrow> store (store mem p xs) (p + length xs) ys = store mem p (xs @ ys)"
  by (simp add: store_def ac_simps)

lemma load_add: "load mem p (a + b) = load mem p a @ load mem (p + a) b"
  by (simp add: load_def take_add add.commute)

lemma load_store_same: "p \<le> length mem \<Longrightarrow> load (store mem p xs) p (length xs) = xs"
  by (simp add: load_def store_def)

lemma load_store_before:
  assumes "q + n \<le> p" "p \<le> length mem"
  shows "load (store mem p xs) q n = load mem q n"
proof -
  have "take n (drop q (take p mem @ xs @ drop (p + length xs) mem)) = take n (drop q (take p mem))"
    using assms by simp
  also have "\<dots> = take n (take (p - q) (drop q mem))"
    by (simp add: drop_take)
  also have "\<dots> = take n (drop q mem)"
    using assms by (simp add: min_def)
  finally show ?thesis
    by (simp add: load_def store_def)
qed

lemma load_store_after:
  "p + length xs \<le> q \<Longrightarrow> p + length xs \<le> length mem \<Longrightarrow> load (store mem p xs) q n = load mem q n"
  by (simp add: load_def store_def)


lemma nth_load: "i < n \<Longrightarrow> p + i < length mem \<Longrightarrow> load mem p n ! i = mem ! (p + i)"
  by (simp add: load_def)

lemma load_load: "q + n \<le> k \<Longrightarrow> load (load mem p k) q n = load mem (p + q) n"
  by (simp add: load_def take_drop add.commute)

lemma length_concat_chunks:
  "\<forall>i<n. length (x i) = Z \<Longrightarrow> length (concat (map x [0..<n])) = n * Z"
  by (induction n) simp_all

lemma chunk_le: "i < n \<Longrightarrow> i * Z + Z \<le> n * (Z::nat)"
proof -
  assume "i < n"
  then have "Suc i * Z \<le> n * Z"
    by (intro mult_le_mono1) simp
  then show ?thesis by (simp add: add.commute)
qed

lemma fold_rmw:
  assumes "p + n * Z \<le> length mem"
    and "\<And>i a. length a = Z \<Longrightarrow> length (F i a) = Z"
  shows "fold (\<lambda>i (q, mem). (q + Z, store mem q (F i (load mem q Z)))) [0..<n] (p, mem)
       = (p + n * Z, store mem p (concat (map (\<lambda>i. F i (load mem (p + i * Z) Z)) [0..<n])))"
  using assms(1)
proof (induction n)
  case 0
  then show ?case by (simp add: store_Nil)
next
  case (Suc n)
  let ?C = "concat (map (\<lambda>i. F i (load mem (p + i * Z) Z)) [0..<n])"
  have len: "length ?C = n * Z"
  proof (intro length_concat_chunks allI impI)
    fix i assume "i < n"
    then have "p + i * Z + Z \<le> length mem"
      using Suc.prems chunk_le[of i n Z] by simp
    then show "length (F i (load mem (p + i * Z) Z)) = Z"
      by (simp add: assms(2) length_load)
  qed
  have ld: "load (store mem p ?C) (p + n * Z) Z = load mem (p + n * Z) Z"
    using Suc.prems len by (intro load_store_after) simp_all
  have "store (store mem p ?C) (p + n * Z) (F n (load mem (p + n * Z) Z))
      = store mem p (?C @ F n (load mem (p + n * Z) Z))"
    using store_append[of p mem ?C] Suc.prems len by simp
  with Suc ld show ?case by simp
qed


lemma fold_rmw2:
  assumes "p + n * Z \<le> length mem" and "r + n * Z \<le> length opd"
    and "\<And>a b. length a = Z \<Longrightarrow> length b = Z \<Longrightarrow> length (G a b) = Z"
  shows "fold (\<lambda>i (zr, zq, mem). (zr + Z, zq + Z, store mem zq (G (load mem zq Z) (load opd zr Z))))
           [0..<n] (r, p, mem)
       = (r + n * Z, p + n * Z,
          store mem p (concat (map (\<lambda>i. G (load mem (p + i * Z) Z) (load opd (r + i * Z) Z)) [0..<n])))"
  using assms(1,2)
proof (induction n)
  case 0
  then show ?case by (simp add: store_Nil)
next
  case (Suc n)
  let ?x = "\<lambda>i. G (load mem (p + i * Z) Z) (load opd (r + i * Z) Z)"
  let ?C = "concat (map ?x [0..<n])"
  have len: "length ?C = n * Z"
  proof (intro length_concat_chunks allI impI)
    fix i assume "i < n"
    then have "p + i * Z + Z \<le> length mem" "r + i * Z + Z \<le> length opd"
      using Suc.prems chunk_le[of i n Z] by simp_all
    then show "length (?x i) = Z"
      by (simp add: assms(3) length_load)
  qed
  have ld: "load (store mem p ?C) (p + n * Z) Z = load mem (p + n * Z) Z"
    using Suc.prems len by (intro load_store_after) simp_all
  have "store (store mem p ?C) (p + n * Z) (?x n) = store mem p (?C @ ?x n)"
    using store_append[of p mem ?C] Suc.prems len by simp
  with Suc ld show ?case by simp
qed

lemma concat_load_chunks:
  "concat (map (\<lambda>i. load mem (p + i * Z) Z) [0..<n]) = load mem p (n * Z)"
proof (induction n)
  case 0
  then show ?case by (simp add: load_def)
next
  case (Suc n)
  have "load mem p (n * Z + Z) = load mem p (n * Z) @ load mem (p + n * Z) Z"
    by (rule load_add)
  with Suc show ?case by (simp add: add.commute)
qed

lemma concat_map_chunks:
  "concat (map (\<lambda>i. map f (load mem (p + i * Z) Z)) [0..<n]) = map f (load mem p (n * Z))"
proof -
  have "concat (map (\<lambda>i. map f (load mem (p + i * Z) Z)) [0..<n])
      = map f (concat (map (\<lambda>i. load mem (p + i * Z) Z) [0..<n]))"
    by (simp add: map_concat comp_def)
  then show ?thesis by (simp add: concat_load_chunks)
qed

lemma concat_map2_chunks:
  assumes "p + n * Z \<le> length a" and "q + n * Z \<le> length b"
  shows "concat (map (\<lambda>i. map2 f (load a (p + i * Z) Z) (load b (q + i * Z) Z)) [0..<n])
       = map2 f (load a p (n * Z)) (load b q (n * Z))"
  using assms
proof (induction n)
  case 0
  then show ?case by (simp add: load_def)
next
  case (Suc n)
  have l1: "length (load a p (n * Z)) = n * Z" and l2: "length (load b q (n * Z)) = n * Z"
    using Suc.prems by (simp_all add: length_load)
  have "load a p (Suc n * Z) = load a p (n * Z) @ load a (p + n * Z) Z"
    and "load b q (Suc n * Z) = load b q (n * Z) @ load b (q + n * Z) Z"
    using load_add[of a p "n * Z" Z] load_add[of b q "n * Z" Z] by (simp_all add: add.commute)
  with Suc l1 l2 show ?case by simp
qed

subsection \<open>The element-wise loops\<close>

lemma block_size:
  assumes "iset_ok K"
  shows "(SWIFFT_OUTPUT_BLOCK_SIZE div sizeof_ZOvec K) * ZOvec_lanes K = OUTPUT_BLOCK_ELEMS"
proof -
  have "SWIFFT_LOG2_O K \<in> {0, 1, 2, 3}"
    using assms by (auto simp: iset_ok_def)
  then show ?thesis
    by (auto simp: SWIFFT_OUTPUT_BLOCK_SIZE_def sizeof_ZOvec_def ZOvec_lanes_def SWIFFT_O_def
        Z1vec_lanes_def sizeof_int16_def OUTPUT_BLOCK_ELEMS_def)
qed

lemma binop_loop:
  assumes "iset_ok K" "pout + OUTPUT_BLOCK_ELEMS \<le> length output"
    "popd + OUTPUT_BLOCK_ELEMS \<le> length operand"
  shows "snd (snd (fold (\<lambda>i (zoperand, zoutput, mem).
                 (zoperand + ZOvec_lanes K, zoutput + ZOvec_lanes K,
                  store mem zoutput (modP K (map2 f (load mem zoutput (ZOvec_lanes K))
                                                    (load operand zoperand (ZOvec_lanes K))))))
               [0..<SWIFFT_OUTPUT_BLOCK_SIZE div sizeof_ZOvec K] (popd, pout, output)))
       = store output pout (map2 (\<lambda>x y. SWIFFT_modP K (f x y))
           (load output pout OUTPUT_BLOCK_ELEMS) (load operand popd OUTPUT_BLOCK_ELEMS))"
proof -
  let ?Z = "ZOvec_lanes K" and ?n = "SWIFFT_OUTPUT_BLOCK_SIZE div sizeof_ZOvec K"
  let ?G = "\<lambda>a b. modP K (map2 f a b)"
  let ?x = "\<lambda>i. ?G (load output (pout + i * ?Z) ?Z) (load operand (popd + i * ?Z) ?Z)"
  have n: "?n * ?Z = OUTPUT_BLOCK_ELEMS" by (rule block_size[OF assms(1)])
  have "fold (\<lambda>i (zr, zq, mem). (zr + ?Z, zq + ?Z, store mem zq (?G (load mem zq ?Z) (load operand zr ?Z))))
           [0..<?n] (popd, pout, output)
       = (popd + ?n * ?Z, pout + ?n * ?Z, store output pout (concat (map ?x [0..<?n])))"
    using assms n by (intro fold_rmw2) (simp_all add: modP_def)
  moreover have "concat (map ?x [0..<?n])
    = map2 (\<lambda>x y. SWIFFT_modP K (f x y)) (load output pout (?n * ?Z)) (load operand popd (?n * ?Z))"
    using concat_map2_chunks[of pout ?n ?Z "output" popd operand "\<lambda>x y. SWIFFT_modP K (f x y)"] assms n
    by (simp add: modP_def map_zip_map2 comp_def split_def)
  ultimately show ?thesis
    by (simp add: n)
qed

lemma constop_loop:
  assumes "iset_ok K" "pout + OUTPUT_BLOCK_ELEMS \<le> length output"
  shows "snd (fold (\<lambda>i (zoutput, mem). (zoutput + ZOvec_lanes K,
                 store mem zoutput (modP K (map2 f (load mem zoutput (ZOvec_lanes K)) (ZOCONST K c)))))
               [0..<SWIFFT_OUTPUT_BLOCK_SIZE div sizeof_ZOvec K] (pout, output))
       = store output pout (map (\<lambda>x. SWIFFT_modP K (f x c)) (load output pout OUTPUT_BLOCK_ELEMS))"
proof -
  let ?Z = "ZOvec_lanes K" and ?n = "SWIFFT_OUTPUT_BLOCK_SIZE div sizeof_ZOvec K"
  let ?F = "\<lambda>i::nat. \<lambda>a. modP K (map2 f a (ZOCONST K c))"
  have n: "?n * ?Z = OUTPUT_BLOCK_ELEMS" by (rule block_size[OF assms(1)])
  have eq: "?F i a = map (\<lambda>x. SWIFFT_modP K (f x c)) a" if "length a = ?Z" for i a
  proof -
    have "map2 f a (replicate (length a) c) = map (\<lambda>x. f x c) a"
      by (induction a) simp_all
    with that show ?thesis
      by (simp add: modP_def ZOCONST_def comp_def)
  qed
  have "fold (\<lambda>i (zq, mem). (zq + ?Z, store mem zq (?F i (load mem zq ?Z)))) [0..<?n] (pout, output)
       = (pout + ?n * ?Z, store output pout (concat (map (\<lambda>i. ?F i (load output (pout + i * ?Z) ?Z)) [0..<?n])))"
    using assms n by (intro fold_rmw) (simp_all add: eq)
  moreover have "concat (map (\<lambda>i. ?F i (load output (pout + i * ?Z) ?Z)) [0..<?n])
    = map (\<lambda>x. SWIFFT_modP K (f x c)) (load output pout (?n * ?Z))"
  proof -
    have "?F i (load output (pout + i * ?Z) ?Z) = map (\<lambda>x. SWIFFT_modP K (f x c)) (load output (pout + i * ?Z) ?Z)"
      if "i < ?n" for i
    proof -
      have "pout + i * ?Z + ?Z \<le> length output"
        using chunk_le[OF that, of ?Z] assms(2) n by simp
      then show ?thesis by (intro eq) (simp add: length_load)
    qed
    then have "map (\<lambda>i. ?F i (load output (pout + i * ?Z) ?Z)) [0..<?n]
        = map (\<lambda>i. map (\<lambda>x. SWIFFT_modP K (f x c)) (load output (pout + i * ?Z) ?Z)) [0..<?n]"
      by (intro map_cong) simp_all
    then show ?thesis
      by (simp only: concat_map_chunks)
  qed
  ultimately show ?thesis
    by (simp add: n)
qed

lemma constset_loop:
  assumes "iset_ok K" "pout + OUTPUT_BLOCK_ELEMS \<le> length output"
  shows "snd (fold (\<lambda>i (zoutput, mem). (zoutput + ZOvec_lanes K, store mem zoutput (modP K (ZOCONST K c))))
               [0..<SWIFFT_OUTPUT_BLOCK_SIZE div sizeof_ZOvec K] (pout, output))
       = store output pout (replicate OUTPUT_BLOCK_ELEMS (SWIFFT_modP K c))"
proof -
  let ?Z = "ZOvec_lanes K" and ?n = "SWIFFT_OUTPUT_BLOCK_SIZE div sizeof_ZOvec K"
  let ?F = "\<lambda>(i::nat) (a::int16 list). modP K (ZOCONST K c)"
  have n: "?n * ?Z = OUTPUT_BLOCK_ELEMS" by (rule block_size[OF assms(1)])
  have "fold (\<lambda>i (zq, mem). (zq + ?Z, store mem zq (?F i (load mem zq ?Z)))) [0..<?n] (pout, output)
       = (pout + ?n * ?Z, store output pout (concat (map (\<lambda>i. ?F i (load output (pout + i * ?Z) ?Z)) [0..<?n])))"
    using assms n by (intro fold_rmw) (simp_all add: modP_def ZOCONST_def)
  moreover have "concat (map (\<lambda>i::nat. modP K (ZOCONST K c)) [0..<m]) = replicate (m * ?Z) (SWIFFT_modP K c)" for m
    by (induction m) (simp_all add: modP_def ZOCONST_def flip: replicate_add)
  ultimately show ?thesis
    by (simp add: n)
qed

lemma SWIFFT_Add_eq:
  assumes "iset_ok K" "pout + OUTPUT_BLOCK_ELEMS \<le> length output"
    "popd + OUTPUT_BLOCK_ELEMS \<le> length operand"
  shows "SWIFFT_Add K output pout operand popd =
    store output pout (map2 (\<lambda>x y. SWIFFT_modP K (x + y))
      (load output pout OUTPUT_BLOCK_ELEMS) (load operand popd OUTPUT_BLOCK_ELEMS))"
  unfolding SWIFFT_Add_def Let_def vadd_def by (rule binop_loop[OF assms])

lemma SWIFFT_Sub_eq:
  assumes "iset_ok K" "pout + OUTPUT_BLOCK_ELEMS \<le> length output"
    "popd + OUTPUT_BLOCK_ELEMS \<le> length operand"
  shows "SWIFFT_Sub K output pout operand popd =
    store output pout (map2 (\<lambda>x y. SWIFFT_modP K (x - y))
      (load output pout OUTPUT_BLOCK_ELEMS) (load operand popd OUTPUT_BLOCK_ELEMS))"
  unfolding SWIFFT_Sub_def Let_def vsub_def by (rule binop_loop[OF assms])

lemma SWIFFT_Mul_eq:
  assumes "iset_ok K" "pout + OUTPUT_BLOCK_ELEMS \<le> length output"
    "popd + OUTPUT_BLOCK_ELEMS \<le> length operand"
  shows "SWIFFT_Mul K output pout operand popd =
    store output pout (map2 (\<lambda>x y. SWIFFT_modP K (x * y))
      (load output pout OUTPUT_BLOCK_ELEMS) (load operand popd OUTPUT_BLOCK_ELEMS))"
  unfolding SWIFFT_Mul_def Let_def vmul_def by (rule binop_loop[OF assms])

lemma SWIFFT_ConstAdd_eq:
  assumes "iset_ok K" "pout + OUTPUT_BLOCK_ELEMS \<le> length output"
  shows "SWIFFT_ConstAdd K output pout c =
    store output pout (map (\<lambda>x. SWIFFT_modP K (x + c)) (load output pout OUTPUT_BLOCK_ELEMS))"
  unfolding SWIFFT_ConstAdd_def Let_def vadd_def by (rule constop_loop[OF assms])

lemma SWIFFT_ConstSub_eq:
  assumes "iset_ok K" "pout + OUTPUT_BLOCK_ELEMS \<le> length output"
  shows "SWIFFT_ConstSub K output pout c =
    store output pout (map (\<lambda>x. SWIFFT_modP K (x - c)) (load output pout OUTPUT_BLOCK_ELEMS))"
  unfolding SWIFFT_ConstSub_def Let_def vsub_def by (rule constop_loop[OF assms])

lemma SWIFFT_ConstMul_eq:
  assumes "iset_ok K" "pout + OUTPUT_BLOCK_ELEMS \<le> length output"
  shows "SWIFFT_ConstMul K output pout c =
    store output pout (map (\<lambda>x. SWIFFT_modP K (x * c)) (load output pout OUTPUT_BLOCK_ELEMS))"
  unfolding SWIFFT_ConstMul_def Let_def vmul_def by (rule constop_loop[OF assms])

lemma SWIFFT_ConstSet_eq:
  assumes "iset_ok K" "pout + OUTPUT_BLOCK_ELEMS \<le> length output"
  shows "SWIFFT_ConstSet K output pout c =
    store output pout (replicate OUTPUT_BLOCK_ELEMS (SWIFFT_modP K c))"
  unfolding SWIFFT_ConstSet_def Let_def by (rule constset_loop[OF assms])

lemma sample_iset_ok: "L \<le> 3 \<Longrightarrow> iset_ok (sample_iset L lo)"
  by (simp add: iset_ok_def sample_iset_def)

lemma sample_modP: "SWIFFT_modP (sample_iset L lo) = modP_sys lo"
  by (simp add: sample_iset_def)

lemma modP_sys_0: "modP_sys 0 x = word_of_int (sint x mod 257)"
  by (simp add: modP_sys_def SWIFFT_P_def)

lemma OUTPUT_BLOCK_ELEMS_64: "OUTPUT_BLOCK_ELEMS = 64"
  by (simp add: OUTPUT_BLOCK_ELEMS_def SWIFFT_OUTPUT_BLOCK_SIZE_def sizeof_int16_def)

subsection \<open>The FFT-sum loops\<close>

lemma fold_store_seq:
  assumes "p \<le> length mem" and "\<forall>j<n. length (x j) = Z"
  shows "fold (\<lambda>j mem. store mem (p + j * Z) (x j)) [0..<n] mem = store mem p (concat (map x [0..<n]))"
  using assms(2)
proof (induction n)
  case 0
  then show ?case by (simp add: store_Nil)
next
  case (Suc n)
  have len: "length (concat (map x [0..<n])) = n * Z"
    using Suc.prems by (intro length_concat_chunks) simp
  have "store (store mem p (concat (map x [0..<n]))) (p + n * Z) (x n)
      = store mem p (concat (map x [0..<n]) @ x n)"
    using store_append[of p mem "concat (map x [0..<n])" "x n"] assms(1) len by simp
  with Suc show ?case by simp
qed

lemma fold_update_rows_aux:
  "k \<le> length acc \<Longrightarrow>
   fold (\<lambda>j acc. acc[j := g j (acc ! j)]) [0..<k] acc = map (\<lambda>j. g j (acc ! j)) [0..<k] @ drop k acc"
proof (induction k)
  case 0
  then show ?case by simp
next
  case (Suc k)
  let ?A = "map (\<lambda>j. g j (acc ! j)) [0..<k]"
  have k: "k < length acc" using Suc.prems by simp
  have d: "drop k acc = acc ! k # drop (Suc k) acc"
    using k by (simp add: Cons_nth_drop_Suc)
  have "(?A @ drop k acc)[k := g k ((?A @ drop k acc) ! k)] = ?A @ [g k (acc ! k)] @ drop (Suc k) acc"
    using k by (simp add: d list_update_append nth_append)
  with Suc show ?case by simp
qed

lemma fold_update_rows:
  "length acc = n \<Longrightarrow>
   fold (\<lambda>j acc. acc[j := g j (acc ! j)]) [0..<n] acc = map (\<lambda>j. g j (acc ! j)) [0..<n]"
  using fold_update_rows_aux[of n acc g] by simp

lemma lanes_per_block:
  assumes "iset_ok K"
  shows "(8 div 2 ^ SWIFFT_LOG2_O K) * ZOvec_lanes K = 64"
proof -
  have "SWIFFT_LOG2_O K \<in> {0, 1, 2, 3}"
    using assms by (auto simp: iset_ok_def)
  then show ?thesis
    by (auto simp: ZOvec_lanes_def SWIFFT_O_def Z1vec_lanes_def)
qed

lemma fftsum_rows:
  "fold (\<lambda>i. fftsum_row K ikey ifftout) [0..<m] (pfft, pkey, v0)
   = (pfft + m * ((8 div 2 ^ SWIFFT_LOG2_O K) * ZOvec_lanes K),
      pkey + m * ((8 div 2 ^ SWIFFT_LOG2_O K) * ZOvec_lanes K),
      fold (\<lambda>i acc.
         fold (\<lambda>j acc. acc[j := vadd (acc ! j)
                (qReduce K (safeMult K
                   (load ifftout (pfft + (i * (8 div 2 ^ SWIFFT_LOG2_O K) + j) * ZOvec_lanes K) (ZOvec_lanes K))
                   (load ikey (pkey + (i * (8 div 2 ^ SWIFFT_LOG2_O K) + j) * ZOvec_lanes K) (ZOvec_lanes K))))])
           [0..<8 div 2 ^ SWIFFT_LOG2_O K] acc)
        [0..<m] v0)"
proof (induction m)
  case 0
  then show ?case by simp
next
  case (Suc m)
  have "fold (\<lambda>i. fftsum_row K ikey ifftout) [0..<Suc m] (pfft, pkey, v0)
      = fftsum_row K ikey ifftout (fold (\<lambda>i. fftsum_row K ikey ifftout) [0..<m] (pfft, pkey, v0))"
    by simp
  also note Suc
  also have "fftsum_row K ikey ifftout (a, b, acc)
      = (a + (8 div 2 ^ SWIFFT_LOG2_O K) * ZOvec_lanes K,
         b + (8 div 2 ^ SWIFFT_LOG2_O K) * ZOvec_lanes K,
         fold (\<lambda>j v. v[j := vadd (v ! j)
              (qReduce K (safeMult K (load ifftout (a + j * ZOvec_lanes K) (ZOvec_lanes K))
                                     (load ikey (b + j * ZOvec_lanes K) (ZOvec_lanes K))))])
           [0..<8 div 2 ^ SWIFFT_LOG2_O K] acc)" for a b acc
    by (simp add: fftsum_row_def)
  finally show ?case
    by (simp add: algebra_simps)
qed


lemma lane_index_le:
  assumes "iset_ok K" "i < m" "j < 8 div SWIFFT_O K"
  shows "(i * (8 div SWIFFT_O K) + j) * ZOvec_lanes K + ZOvec_lanes K \<le> 64 * m"
proof -
  let ?n = "8 div SWIFFT_O K" and ?Z = "ZOvec_lanes K"
  have nz: "?n * ?Z = 64"
    using lanes_per_block[OF assms(1)] by (simp add: SWIFFT_O_def)
  have "Suc (i * ?n + j) \<le> Suc i * ?n"
    using assms(3) by simp
  also have "\<dots> \<le> m * ?n"
    using assms(2) by (intro mult_le_mono1) simp
  finally have "Suc (i * ?n + j) * ?Z \<le> (m * ?n) * ?Z"
    by (rule mult_le_mono1)
  moreover have "(m * ?n) * ?Z = 64 * m"
    by (metis mult.assoc mult.commute nz)
  moreover have "Suc (i * ?n + j) * ?Z = (i * ?n + j) * ?Z + ?Z"
    by simp
  ultimately show ?thesis
    by (simp only:)
qed

lemma lane_vector_load:
  assumes "iset_ok K" "i < m" "j < 8 div SWIFFT_O K"
  shows "lane_vector K (load buf p (64 * m)) i j
       = load buf (p + (i * (8 div SWIFFT_O K) + j) * ZOvec_lanes K) (ZOvec_lanes K)"
  unfolding lane_vector_def
  by (rule load_load) (rule lane_index_le[OF assms])

lemma length_lane_vector:
  assumes "iset_ok K" "i < m" "j < 8 div SWIFFT_O K" "64 * m \<le> length buf"
  shows "length (lane_vector K buf i j) = ZOvec_lanes K"
  unfolding lane_vector_def
  using lane_index_le[OF assms(1-3)] assms(4) by (intro length_load) simp

lemma fftsum_spec_acc_Suc:
  "fftsum_spec_acc K key fftout (Suc m) =
     map (\<lambda>j. vadd (fftsum_spec_acc K key fftout m ! j)
            (qReduce K (safeMult K (lane_vector K fftout m j) (lane_vector K key m j))))
       [0..<8 div SWIFFT_O K]"
  if "length (fftsum_spec_acc K key fftout m) = 8 div SWIFFT_O K"
  using that fold_update_rows[of "fftsum_spec_acc K key fftout m" "8 div SWIFFT_O K"
      "\<lambda>j a. vadd a (qReduce K (safeMult K (lane_vector K fftout m j) (lane_vector K key m j)))"]
  by (simp add: fftsum_spec_acc_def)

lemma fftsum_spec_acc_shape:
  assumes "iset_ok K" "64 * m \<le> length key" "64 * m \<le> length fftout"
  shows "length (fftsum_spec_acc K key fftout m) = 8 div SWIFFT_O K \<and>
         (\<forall>r \<in> set (fftsum_spec_acc K key fftout m). length r = ZOvec_lanes K)"
  using assms(2,3)
proof (induction m)
  case 0
  show ?case by (simp add: fftsum_spec_acc_def)
next
  case (Suc m)
  let ?A = "fftsum_spec_acc K key fftout m"
  have le: "64 * m \<le> length key" "64 * m \<le> length fftout"
    using Suc.prems by simp_all
  have IH: "length ?A = 8 div SWIFFT_O K" "\<forall>r \<in> set ?A. length r = ZOvec_lanes K"
    using Suc.IH[OF le] by blast+
  have row: "length (vadd (?A ! j)
            (qReduce K (safeMult K (lane_vector K fftout m j) (lane_vector K key m j)))) = ZOvec_lanes K"
    if "j < 8 div SWIFFT_O K" for j
  proof -
    have "length (lane_vector K fftout m j) = ZOvec_lanes K"
      by (rule length_lane_vector[OF assms(1) _ that Suc.prems(2)]) simp
    moreover have "length (lane_vector K key m j) = ZOvec_lanes K"
      by (rule length_lane_vector[OF assms(1) _ that Suc.prems(1)]) simp
    moreover have "length (?A ! j) = ZOvec_lanes K"
      using IH that by simp
    ultimately show ?thesis
      by (simp add: vadd_def qReduce_def safeMult_def)
  qed
  have "length (fftsum_spec_acc K key fftout (Suc m)) = 8 div SWIFFT_O K"
    by (simp only: fftsum_spec_acc_Suc[OF IH(1)] length_map length_upt diff_zero)
  moreover have "length r = ZOvec_lanes K" if "r \<in> set (fftsum_spec_acc K key fftout (Suc m))" for r
  proof -
    from that obtain j where "j < 8 div SWIFFT_O K"
      and "r = vadd (?A ! j) (qReduce K (safeMult K (lane_vector K fftout m j) (lane_vector K key m j)))"
      unfolding fftsum_spec_acc_Suc[OF IH(1)] by auto
    then show ?thesis using row by simp
  qed
  ultimately show ?case by blast
qed

lemma length_concat_rows:
  "\<forall>r \<in> set A. length r = Z \<Longrightarrow> length (concat (map (map f) A)) = length A * Z"
  by (induction A) simp_all

lemma length_fftsum_spec:
  assumes "iset_ok K" "64 * m \<le> length key" "64 * m \<le> length fftout"
  shows "length (fftsum_spec K key fftout m) = 64"
proof -
  let ?A = "fftsum_spec_acc K key fftout m"
  have sh: "length ?A = 8 div SWIFFT_O K" "\<forall>r \<in> set ?A. length r = ZOvec_lanes K"
    using fftsum_spec_acc_shape[OF assms] by simp_all
  have "modP K = map (SWIFFT_modP K)"
    by (rule ext) (simp add: modP_def)
  then have "length (concat (map (modP K) ?A)) = length ?A * ZOvec_lanes K"
    using length_concat_rows[OF sh(2)] by simp
  then show ?thesis
    using sh(1) lanes_per_block[OF assms(1)] by (simp add: fftsum_spec_def SWIFFT_O_def)
qed

lemma SWIFFT_fftsum_eq:
  assumes "iset_ok K"
    and "pkey + 64 * m \<le> length ikey"
    and "pfft + 64 * m \<le> length ifftout"
    and "pout + 64 \<le> length iout"
  shows "SWIFFT_fftsum K ikey pkey ifftout pfft (int m) iout pout =
     store iout pout (fftsum_spec K (load ikey pkey (64 * m)) (load ifftout pfft (64 * m)) m)"
proof -
  let ?n = "8 div SWIFFT_O K" and ?Z = "ZOvec_lanes K"
  let ?key = "load ikey pkey (64 * m)" and ?fft = "load ifftout pfft (64 * m)"
  let ?A = "fftsum_spec_acc K ?key ?fft m"
  have n: "8 div 2 ^ SWIFFT_LOG2_O K = ?n" by (simp add: SWIFFT_O_def)
  have lens: "64 * m \<le> length ?key" "64 * m \<le> length ?fft"
    using assms by (simp_all add: length_load)
  have sh: "length ?A = ?n" "\<forall>r \<in> set ?A. length r = ?Z"
    using fftsum_spec_acc_shape[OF assms(1) lens] by simp_all
  have acc: "fold (\<lambda>i acc.
         fold (\<lambda>j acc. acc[j := vadd (acc ! j)
                (qReduce K (safeMult K
                   (load ifftout (pfft + (i * ?n + j) * ?Z) ?Z)
                   (load ikey (pkey + (i * ?n + j) * ?Z) ?Z)))])
           [0..<?n] acc)
        [0..<m] (replicate ?n (replicate ?Z 0)) = ?A"
    unfolding fftsum_spec_acc_def
    by (intro fold_cong refl ext) (simp_all add: lane_vector_load[OF assms(1)])
  have "fold (\<lambda>j mem. store mem (pout + j * ?Z) (modP K (?A ! j))) [0..<?n] iout
      = store iout pout (concat (map (\<lambda>j. modP K (?A ! j)) [0..<?n]))"
    using assms(4) sh by (intro fold_store_seq) (simp_all add: modP_def)
  moreover have "map (\<lambda>j. modP K (?A ! j)) [0..<?n] = map (modP K) ?A"
    using sh(1) by (simp add: list_eq_iff_nth_eq)

  ultimately show ?thesis
    by (simp add: SWIFFT_fftsum_def Let_def fftsum_rows n acc fftsum_spec_def)
qed

lemma upt_0_2: "[0..<2] = [0, 1]"
  by (simp add: upt_rec)

subsection \<open>The FFT loops\<close>

lemma length_fft_entry: "length (fft_entry K input sign t u k) = 8"
  by (simp add: fft_entry_def Tabl_def Mult_def vmul_def Z1vec_lanes_def)

lemma map_nth_upt: "length v = n \<Longrightarrow> map (\<lambda>k. v ! k) [0..<n] = v"
  using map_nth[of v] by simp

lemma fft_load_column_eq:
  assumes "length v = 8"
  shows "fft_load_column K input sign j (t, u, v) =
     (t + 8, u + 8, map (\<lambda>k. store (v ! k) (Z1vec_lanes * j) (fft_entry K input sign t u k)) [0..<8])"
proof -
  let ?f = "\<lambda>k v. v[k := store (v ! k) (Z1vec_lanes * j) (fft_entry K input sign t u k)]"
  let ?g = "\<lambda>k v. v[k := store (v ! k) (Z1vec_lanes * j)
                 (vmul (Tabl K (SWIFFT_INT16 K (sign ! (u + k)) (input ! (t + k)))) (Mult K k))]"
  have "fold ?g [1..<8] (?f 0 v) = fold ?f [1..<8] (?f 0 v)"
    by (intro fold_cong refl ext) (simp add: fft_entry_def)
  also have "\<dots> = fold ?f [0..<8] v"
    by (simp add: upt_conv_Cons[of 0 8])
  also have "\<dots> = map (\<lambda>k. store (v ! k) (Z1vec_lanes * j) (fft_entry K input sign t u k)) [0..<8]"
    using assms by (intro fold_update_rows)
  finally show ?thesis
    by (simp add: fft_load_column_def Let_def fft_entry_def)
qed

lemma store_at_end: "length C = p \<Longrightarrow> store (C @ D) p x = C @ x @ drop (length x) D"
  by (simp add: store_def)

lemma fft_load_loop:
  assumes "length v = 8"
  shows "fold (fft_load_column K input sign) [0..<n] (t, u, v) =
     (t + 8 * n, u + 8 * n,
      map (\<lambda>k. concat (map (\<lambda>j. fft_entry K input sign (t + 8 * j) (u + 8 * j) k) [0..<n])
               @ drop (8 * n) (v ! k)) [0..<8])"
proof (induction n)
  case 0
  show ?case using assms by (simp add: map_nth_upt)
next
  case (Suc n)
  let ?C = "\<lambda>n k. concat (map (\<lambda>j. fft_entry K input sign (t + 8 * j) (u + 8 * j) k) [0..<n])"
  let ?R = "\<lambda>k. ?C n k @ drop (8 * n) (v ! k)"
  have len: "length (?C n k) = 8 * n" for k
    using length_concat_chunks[of n "\<lambda>j. fft_entry K input sign (t + 8 * j) (u + 8 * j) k" 8]
    by (simp add: length_fft_entry mult.commute)
  have row: "store (map ?R [0..<8] ! k) (Z1vec_lanes * n) (fft_entry K input sign (t + 8 * n) (u + 8 * n) k)
      = ?C (Suc n) k @ drop (8 * Suc n) (v ! k)" if "k < 8" for k
  proof -
    have "map ?R [0..<8] ! k = ?R k"
      using that by simp
    moreover have "store (?R k) (8 * n) (fft_entry K input sign (t + 8 * n) (u + 8 * n) k)
      = ?C n k @ fft_entry K input sign (t + 8 * n) (u + 8 * n) k
          @ drop (length (fft_entry K input sign (t + 8 * n) (u + 8 * n) k)) (drop (8 * n) (v ! k))"
      by (rule store_at_end) (rule len)
    ultimately show ?thesis
      by (simp add: length_fft_entry Z1vec_lanes_def add.commute)
  qed
  have "fold (fft_load_column K input sign) [0..<Suc n] (t, u, v)
      = fft_load_column K input sign n (t + 8 * n, u + 8 * n, map ?R [0..<8])"
    by (simp add: Suc)
  also have "\<dots> = (t + 8 * n + 8, u + 8 * n + 8,
      map (\<lambda>k. store (map ?R [0..<8] ! k) (Z1vec_lanes * n)
                 (fft_entry K input sign (t + 8 * n) (u + 8 * n) k)) [0..<8])"
    by (rule fft_load_column_eq) simp
  also have "map (\<lambda>k. store (map ?R [0..<8] ! k) (Z1vec_lanes * n)
                 (fft_entry K input sign (t + 8 * n) (u + 8 * n) k)) [0..<8]
      = map (\<lambda>k. ?C (Suc n) k @ drop (8 * Suc n) (v ! k)) [0..<8]"
    by (intro map_cong refl) (simp only: row atLeastLessThan_iff set_upt)
  finally show ?case by simp
qed


lemma list8:
  assumes "length v = 8"
  obtains a0 a1 a2 a3 a4 a5 a6 a7 where "v = [a0, a1, a2, a3, a4, a5, a6, a7]"
proof -
  from assms obtain a0 v1 where "v = a0 # v1" "length v1 = 7" by (cases v) auto
  moreover then obtain a1 v2 where "v1 = a1 # v2" "length v2 = 6" by (cases v1) auto
  moreover then obtain a2 v3 where "v2 = a2 # v3" "length v3 = 5" by (cases v2) auto
  moreover then obtain a3 v4 where "v3 = a3 # v4" "length v4 = 4" by (cases v3) auto
  moreover then obtain a4 v5 where "v4 = a4 # v5" "length v5 = 3" by (cases v4) auto
  moreover then obtain a5 v6 where "v5 = a5 # v6" "length v6 = 2" by (cases v5) auto
  moreover then obtain a6 v7 where "v6 = a6 # v7" "length v7 = 1" by (cases v6) auto
  moreover then obtain a7 where "v7 = [a7]" by (cases v7) auto
  ultimately show ?thesis using that by simp
qed

lemma upt_0_8: "[0..<8] = [0, 1, 2, 3, 4, 5, 6, 7]"
  by (simp add: upt_rec)

lemma list_update_Cons_numeral: "(x # xs)[numeral n := y] = x # xs[pred_numeral n := y]"
  by (simp add: numeral_eq_Suc)

lemma AddSub_at:
  "SWIFFT_AddSub a b v = (v[a := vadd (v ! a) (v ! b)])[b := vsub (v ! a) (v ! b)]"
  by (simp add: SWIFFT_AddSub_def AddSub_def)

lemma fft_butterflies_eq:
  assumes "length v = 8"
  shows "fft_butterflies K v = fft_spec_schedule K v"
proof -
  obtain a0 a1 a2 a3 a4 a5 a6 a7 where v: "v = [a0, a1, a2, a3, a4, a5, a6, a7]"
    using assms by (rule list8)
  show ?thesis
    unfolding v fft_butterflies_def fft_spec_schedule_def AddSub_at AddSub_def upt_0_8
    by (simp add: Let_def list_update_Cons_numeral cong: let_weak_cong)
qed


lemma length_vops:
  "length (qReduce K a) = length a" "length (shift K a s) = length a"
  "length b = length a \<Longrightarrow> length (vadd a b) = length a"
  "length b = length a \<Longrightarrow> length (vsub a b) = length a"
  by (simp_all add: qReduce_def shift_def vadd_def vsub_def)

lemma fft_spec_schedule_shape:
  assumes "length v = 8" "\<forall>r \<in> set v. length r = Z"
  shows "length (fft_spec_schedule K v) = 8 \<and> (\<forall>r \<in> set (fft_spec_schedule K v). length r = Z)"
proof -
  obtain a0 a1 a2 a3 a4 a5 a6 a7 where v: "v = [a0, a1, a2, a3, a4, a5, a6, a7]"
    using assms(1) by (rule list8)
  show ?thesis
    using assms(2) unfolding v fft_spec_schedule_def AddSub_def
    by (simp add: Let_def length_vops cong: let_weak_cong)
qed

lemma fft_store_column_eq:
  assumes "out \<le> length mem" "\<forall>k<8. 8 * j + 8 \<le> length (v ! k)"
  shows "fft_store_column v j (out, mem) =
     (out + 64, store mem out (concat (map (\<lambda>k. load (v ! k) (8 * j) 8) [0..<8])))"
proof -
  have "fold (\<lambda>k mem. store mem (out + k * 8) (load (v ! k) (8 * j) 8)) [0..<8] mem
      = store mem out (concat (map (\<lambda>k. load (v ! k) (8 * j) 8) [0..<8]))"
    using assms by (intro fold_store_seq) (simp_all add: length_load)
  then show ?thesis
    by (simp add: fft_store_column_def Z1vec_lanes_def mult.commute)
qed

lemma fft_store_loop:
  assumes "out \<le> length mem" "\<forall>k<8. 8 * n \<le> length (v ! k)"
  shows "fold (fft_store_column v) [0..<n] (out, mem) =
     (out + 64 * n,
      store mem out (concat (map (\<lambda>j. concat (map (\<lambda>k. load (v ! k) (8 * j) 8) [0..<8])) [0..<n])))"
  using assms(2)
proof (induction n)
  case 0
  show ?case by (simp add: store_Nil)
next
  case (Suc n)
  let ?G = "\<lambda>j. concat (map (\<lambda>k. load (v ! k) (8 * j) 8) [0..<8])"
  let ?C = "concat (map ?G [0..<n])"
  have rows: "\<forall>k<8. 8 * n + 8 \<le> length (v ! k)"
    using Suc.prems by (simp add: add.commute)
  have G: "length (?G j) = 64" if "j \<le> n" for j
  proof -
    have "\<forall>k<8. length (load (v ! k) (8 * j) 8) = 8"
      using rows that by (auto intro!: length_load)
    from length_concat_chunks[OF this] show ?thesis by simp
  qed
  have len: "length ?C = n * 64"
    by (rule length_concat_chunks) (simp add: G)
  have "\<forall>k<8. 8 * n \<le> length (v ! k)"
    using rows by auto
  then have IH: "fold (fft_store_column v) [0..<n] (out, mem) = (out + 64 * n, store mem out ?C)"
    by (rule Suc.IH)
  have out': "out + 64 * n \<le> length (store mem out ?C)"
    using assms(1) len by (simp add: store_def)
  have "fold (fft_store_column v) [0..<Suc n] (out, mem)
      = fft_store_column v n (out + 64 * n, store mem out ?C)"
    by (simp add: IH)
  also have "\<dots> = (out + 64 * n + 64, store (store mem out ?C) (out + 64 * n) (?G n))"
    using out' rows by (intro fft_store_column_eq) simp_all
  also have "store (store mem out ?C) (out + 64 * n) (?G n) = store mem out (?C @ ?G n)"
    using store_append[of out mem ?C "?G n"] assms(1) len by (simp add: mult.commute)
  finally show ?case by simp
qed


lemma length_fft_rows:
  "length (concat (map (\<lambda>j. fft_entry K input sign (t + 8 * j) (u + 8 * j) k) [0..<n])) = 8 * n"
  using length_concat_chunks[of n "\<lambda>j. fft_entry K input sign (t + 8 * j) (u + 8 * j) k" 8]
  by (simp add: length_fft_entry mult.commute)

lemma length_fft_spec_store:
  assumes "\<forall>k<8. 8 * SWIFFT_O K \<le> length (v ! k)"
  shows "length (fft_spec_store K v) = 64 * SWIFFT_O K"
proof -
  have "length (concat (map (\<lambda>k. load (v ! k) (8 * j) 8) [0..<8])) = 64" if "j < SWIFFT_O K" for j
  proof -
    have "\<forall>k<8. length (load (v ! k) (8 * j) 8) = 8"
      using assms that by (auto intro!: length_load)
    from length_concat_chunks[OF this] show ?thesis by simp
  qed
  then have "length (concat (map (\<lambda>j. concat (map (\<lambda>k. load (v ! k) (8 * j) 8) [0..<8])) [0..<SWIFFT_O K]))
      = SWIFFT_O K * 64"
    by (intro length_concat_chunks) simp
  then show ?thesis
    by (simp add: fft_spec_store_def mult.commute)
qed

lemma fft_group_eq:
  assumes "length v = 8" "\<forall>r \<in> set v. length r = 8 * SWIFFT_O K" "out \<le> length mem"
  shows "fft_group K input sign (t, u, out, v, mem) =
     (t + 8 * SWIFFT_O K, u + 8 * SWIFFT_O K, out + 64 * SWIFFT_O K,
      fft_spec_schedule K (map (\<lambda>k. concat (map (\<lambda>j. fft_entry K input sign (t + 8 * j) (u + 8 * j) k)
                                       [0..<SWIFFT_O K])) [0..<8]),
      store mem out (fft_spec_store K (fft_spec_schedule K
        (map (\<lambda>k. concat (map (\<lambda>j. fft_entry K input sign (t + 8 * j) (u + 8 * j) k)
                                       [0..<SWIFFT_O K])) [0..<8]))))"
proof -
  define n where "n = SWIFFT_O K"
  define C where "C = (\<lambda>k. concat (map (\<lambda>j. fft_entry K input sign (t + 8 * j) (u + 8 * j) k) [0..<n]))"
  define rows where "rows = map C [0..<8]"
  define V where "V = fft_spec_schedule K rows"
  have lenC: "length (C k) = 8 * n" for k
    unfolding C_def by (rule length_fft_rows)
  have "C k @ drop (8 * n) (v ! k) = C k" if "k \<in> set [0..<8]" for k
  proof -
    have "v ! k \<in> set v" using that assms(1) by simp
    then have "length (v ! k) = 8 * n" using assms(2) n_def by blast
    then show ?thesis by simp
  qed
  then have "map (\<lambda>k. C k @ drop (8 * n) (v ! k)) [0..<8] = rows"
    unfolding rows_def by (intro map_cong refl)
  then have ld: "fold (fft_load_column K input sign) [0..<n] (t, u, v) = (t + 8 * n, u + 8 * n, rows)"
    using fft_load_loop[OF assms(1), of K input sign n t u] by (simp only: C_def)
  have lrows: "length rows = 8"
    by (simp add: rows_def)
  have bf: "fft_butterflies K rows = V"
    unfolding V_def by (rule fft_butterflies_eq[OF lrows])
  have "\<forall>r \<in> set rows. length r = 8 * n"
    by (auto simp: rows_def lenC)
  from fft_spec_schedule_shape[OF lrows this, of K]
  have sh: "length V = 8" "\<forall>r \<in> set V. length r = 8 * n"
    unfolding V_def by blast+
  have rws: "\<forall>k<8. 8 * n \<le> length (V ! k)"
    using sh by simp
  have st: "fold (fft_store_column V) [0..<n] (out, mem) = (out + 64 * n, store mem out (fft_spec_store K V))"
    unfolding fft_spec_store_def n_def[symmetric] by (rule fft_store_loop[OF assms(3) rws])
  have "fft_group K input sign (t, u, out, v, mem) =
     (t + 8 * n, u + 8 * n, out + 64 * n, V, store mem out (fft_spec_store K V))"
    unfolding fft_group_def n_def[symmetric] by (simp only: prod.case Let_def ld bf st)
  then show ?thesis
    by (simp only: V_def rows_def C_def n_def)
qed

lemma fft_rows_shape:
  "length (fft_spec_schedule K (map (\<lambda>k. concat (map (\<lambda>j. fft_entry K input sign (t + 8 * j) (u + 8 * j) k)
                              [0..<n])) [0..<8])) = 8 \<and>
   (\<forall>r \<in> set (fft_spec_schedule K (map (\<lambda>k. concat (map (\<lambda>j. fft_entry K input sign (t + 8 * j) (u + 8 * j) k)
                              [0..<n])) [0..<8])). length r = 8 * n)"
proof -
  define C where "C = (\<lambda>k. concat (map (\<lambda>j. fft_entry K input sign (t + 8 * j) (u + 8 * j) k) [0..<n]))"
  define rows where "rows = map C [0..<8]"
  have lenC: "length (C k) = 8 * n" for k
    unfolding C_def by (rule length_fft_rows)
  have lrows: "length rows = 8"
    by (simp add: rows_def)
  have "\<forall>r \<in> set rows. length r = 8 * n"
    by (auto simp: rows_def lenC)
  from fft_spec_schedule_shape[OF lrows this, of K] show ?thesis
    unfolding rows_def C_def .
qed

lemma fft_groups:
  assumes "length v = 8" "\<forall>r \<in> set v. length r = 8 * SWIFFT_O K" "pout \<le> length fftout"
  shows "\<exists>v'. length v' = 8 \<and> (\<forall>r \<in> set v'. length r = 8 * SWIFFT_O K) \<and>
     fold (\<lambda>i. fft_group K input sign) [0..<n] (pin, psg, pout, v, fftout) =
     (pin + 8 * SWIFFT_O K * n, psg + 8 * SWIFFT_O K * n, pout + 64 * SWIFFT_O K * n, v',
      store fftout pout (concat (map (\<lambda>g. fft_spec_store K (fft_spec_schedule K
        (map (\<lambda>k. concat (map (\<lambda>j. fft_entry K input sign (pin + 8 * SWIFFT_O K * g + 8 * j)
                                         (psg + 8 * SWIFFT_O K * g + 8 * j) k)
                              [0..<SWIFFT_O K])) [0..<8]))) [0..<n])))"
proof -
  define Q where "Q = SWIFFT_O K"
  define V where "V = (\<lambda>g. fft_spec_schedule K
        (map (\<lambda>k. concat (map (\<lambda>j. fft_entry K input sign (pin + 8 * Q * g + 8 * j)
                                         (psg + 8 * Q * g + 8 * j) k) [0..<Q])) [0..<8]))"
  define G where "G = (\<lambda>g. fft_spec_store K (V g))"
  have shape: "length (V g) = 8" "\<forall>r \<in> set (V g). length r = 8 * Q" for g
    using fft_rows_shape[of K input sign "pin + 8 * Q * g" "psg + 8 * Q * g" Q]
    unfolding V_def by blast+
  have lenG: "length (G g) = 64 * Q" for g
    unfolding G_def Q_def using shape[of g]
    by (intro length_fft_spec_store) (simp add: Q_def)
  have step: "fft_group K input sign (pin + 8 * Q * g, psg + 8 * Q * g, out, v', mem) =
      (pin + 8 * Q * g + 8 * Q, psg + 8 * Q * g + 8 * Q, out + 64 * Q, V g, store mem out (G g))"
    if "length v' = 8" "\<forall>r \<in> set v'. length r = 8 * Q" "out \<le> length mem" for g v' out mem
    using fft_group_eq[of v' K out mem input sign "pin + 8 * Q * g" "psg + 8 * Q * g"] that
    unfolding G_def V_def Q_def by blast
  have "\<exists>v'. length v' = 8 \<and> (\<forall>r \<in> set v'. length r = 8 * Q) \<and>
     fold (\<lambda>i. fft_group K input sign) [0..<n] (pin, psg, pout, v, fftout) =
     (pin + 8 * Q * n, psg + 8 * Q * n, pout + 64 * Q * n, v',
      store fftout pout (concat (map G [0..<n])))"
  proof (induction n)
    case 0
    show ?case using assms by (simp add: store_Nil Q_def)
  next
    case (Suc n)
    then obtain v' where v': "length v' = 8" "\<forall>r \<in> set v'. length r = 8 * Q"
      and IH: "fold (\<lambda>i. fft_group K input sign) [0..<n] (pin, psg, pout, v, fftout) =
        (pin + 8 * Q * n, psg + 8 * Q * n, pout + 64 * Q * n, v', store fftout pout (concat (map G [0..<n])))"
      by blast
    have len: "length (concat (map G [0..<n])) = n * (64 * Q)"
      by (rule length_concat_chunks) (simp add: lenG)
    have out': "pout + 64 * Q * n \<le> length (store fftout pout (concat (map G [0..<n])))"
      using assms(3) len by (simp add: store_def mult.commute)
    have "fold (\<lambda>i. fft_group K input sign) [0..<Suc n] (pin, psg, pout, v, fftout)
        = fft_group K input sign (fold (\<lambda>i. fft_group K input sign) [0..<n] (pin, psg, pout, v, fftout))"
      by simp
    also have "\<dots> = (pin + 8 * Q * n + 8 * Q, psg + 8 * Q * n + 8 * Q, pout + 64 * Q * n + 64 * Q,
        V n, store (store fftout pout (concat (map G [0..<n]))) (pout + 64 * Q * n) (G n))"
      unfolding IH by (rule step[OF v' out'])
    also have "store (store fftout pout (concat (map G [0..<n]))) (pout + 64 * Q * n) (G n)
        = store fftout pout (concat (map G [0..<n]) @ G n)"
      using store_append[of pout fftout "concat (map G [0..<n])" "G n"] assms(3) len
      by (simp add: mult.commute)
    finally have "fold (\<lambda>i. fft_group K input sign) [0..<Suc n] (pin, psg, pout, v, fftout) =
       (pin + 8 * Q * Suc n, psg + 8 * Q * Suc n, pout + 64 * Q * Suc n, V n,
        store fftout pout (concat (map G [0..<Suc n])))"
      by simp
    with shape[of n] show ?case by blast
  qed
  then show ?thesis
    unfolding G_def V_def Q_def .
qed

lemma fft_entry_spec:
  assumes "pin + 8 * m \<le> length input" "psg + 8 * m \<le> length sign" "c < m" "k < 8"
  shows "fft_entry K input sign (pin + 8 * c) (psg + 8 * c) k
       = fft_spec_load K (load input pin (8 * m)) (load sign psg (8 * m)) c k"
proof -
  have i: "8 * c + k < 8 * m"
    using assms(3,4) by simp
  have "load input pin (8 * m) ! (8 * c + k) = input ! (pin + (8 * c + k))"
    using i assms(1) by (intro nth_load) simp_all
  moreover have "load sign psg (8 * m) ! (8 * c + k) = sign ! (psg + (8 * c + k))"
    using i assms(2) by (intro nth_load) simp_all
  ultimately show ?thesis
    by (simp add: fft_entry_def fft_spec_load_def Let_def add.assoc)
qed

lemma fft_rows_spec:
  assumes "pin + 8 * m \<le> length input" "psg + 8 * m \<le> length sign" "Suc g * SWIFFT_O K \<le> m"
  shows "map (\<lambda>k. concat (map (\<lambda>j. fft_entry K input sign (pin + 8 * SWIFFT_O K * g + 8 * j)
                                         (psg + 8 * SWIFFT_O K * g + 8 * j) k)
                              [0..<SWIFFT_O K])) [0..<8]
       = fft_spec_rows K (load input pin (8 * m)) (load sign psg (8 * m)) g"
proof -
  have "fft_entry K input sign (pin + 8 * SWIFFT_O K * g + 8 * j) (psg + 8 * SWIFFT_O K * g + 8 * j) k
      = fft_spec_load K (load input pin (8 * m)) (load sign psg (8 * m)) (g * SWIFFT_O K + j) k"
    if "j < SWIFFT_O K" "k < 8" for j k
  proof -
    have "g * SWIFFT_O K + j < m"
      using that(1) assms(3) by simp
    from fft_entry_spec[OF assms(1,2) this that(2), of K] show ?thesis
      by (simp add: algebra_simps)
  qed
  then show ?thesis
    unfolding fft_spec_rows_def
    by (intro map_cong refl arg_cong[where f = concat]) simp_all
qed

lemma SWIFFT_fft_eq:
  assumes "pin + 8 * (n * SWIFFT_O K) \<le> length input"
    and "psg + 8 * (n * SWIFFT_O K) \<le> length sign"
    and "pout \<le> length fftout"
  shows "SWIFFT_fft K junk input pin sign psg (int (n * SWIFFT_O K)) fftout pout =
     store fftout pout (fft_spec K (load input pin (8 * (n * SWIFFT_O K)))
                                   (load sign psg (8 * (n * SWIFFT_O K))) (n * SWIFFT_O K))"
proof -
  define m where "m = n * SWIFFT_O K"
  define v0 where "v0 = map (\<lambda>k. uninit (\<lambda>l. junk (k * ZOvec_lanes K + l)) (ZOvec_lanes K)) [0..<8]"
  have O: "0 < SWIFFT_O K"
    by (simp add: SWIFFT_O_def)
  have cnt: "nat (int m div 2 ^ SWIFFT_LOG2_O K) = n"
  proof -
    have "int m div 2 ^ SWIFFT_LOG2_O K = int (m div SWIFFT_O K)"
      by (simp add: SWIFFT_O_def zdiv_int)
    then show ?thesis using O by (simp add: m_def)
  qed
  have v0: "length v0 = 8" "\<forall>r \<in> set v0. length r = 8 * SWIFFT_O K"
    by (auto simp: v0_def uninit_def ZOvec_lanes_def Z1vec_lanes_def)
  from fft_groups[OF v0 assms(3), of input sign n pin psg]
  obtain v' where run: "fold (\<lambda>i. fft_group K input sign) [0..<n] (pin, psg, pout, v0, fftout) =
     (pin + 8 * SWIFFT_O K * n, psg + 8 * SWIFFT_O K * n, pout + 64 * SWIFFT_O K * n, v',
      store fftout pout (concat (map (\<lambda>g. fft_spec_store K (fft_spec_schedule K
        (map (\<lambda>k. concat (map (\<lambda>j. fft_entry K input sign (pin + 8 * SWIFFT_O K * g + 8 * j)
                                         (psg + 8 * SWIFFT_O K * g + 8 * j) k)
                              [0..<SWIFFT_O K])) [0..<8]))) [0..<n])))"
    by blast
  have maps: "map (\<lambda>g. fft_spec_store K (fft_spec_schedule K
        (map (\<lambda>k. concat (map (\<lambda>j. fft_entry K input sign (pin + 8 * SWIFFT_O K * g + 8 * j)
                                         (psg + 8 * SWIFFT_O K * g + 8 * j) k)
                              [0..<SWIFFT_O K])) [0..<8]))) [0..<n]
      = map (\<lambda>g. fft_spec_store K (fft_spec_schedule K
          (fft_spec_rows K (load input pin (8 * m)) (load sign psg (8 * m)) g))) [0..<n]"
  proof (intro map_cong refl)
    fix g assume "g \<in> set [0..<n]"
    then have "Suc g * SWIFFT_O K \<le> m"
      unfolding m_def by (intro mult_le_mono1) simp
    from fft_rows_spec[OF _ _ this, of pin input psg sign] assms(1,2)
    show "fft_spec_store K (fft_spec_schedule K
        (map (\<lambda>k. concat (map (\<lambda>j. fft_entry K input sign (pin + 8 * SWIFFT_O K * g + 8 * j)
                                         (psg + 8 * SWIFFT_O K * g + 8 * j) k)
                              [0..<SWIFFT_O K])) [0..<8]))
      = fft_spec_store K (fft_spec_schedule K
          (fft_spec_rows K (load input pin (8 * m)) (load sign psg (8 * m)) g))"
      by (simp add: m_def)
  qed
  have dv: "m div SWIFFT_O K = n"
    using O by (simp add: m_def)
  have "SWIFFT_fft K junk input pin sign psg (int m) fftout pout =
     store fftout pout (concat (map (\<lambda>g. fft_spec_store K (fft_spec_schedule K
        (map (\<lambda>k. concat (map (\<lambda>j. fft_entry K input sign (pin + 8 * SWIFFT_O K * g + 8 * j)
                                         (psg + 8 * SWIFFT_O K * g + 8 * j) k)
                              [0..<SWIFFT_O K])) [0..<8]))) [0..<n]))"
    unfolding SWIFFT_fft_def Let_def cnt v0_def[symmetric] run
    by (simp only: prod.case)
  also have "\<dots> = store fftout pout (fft_spec K (load input pin (8 * m)) (load sign psg (8 * m)) m)"
    unfolding fft_spec_def dv by (simp only: maps)
  finally show ?thesis
    by (simp only: m_def)
qed

lemma length_fft_spec:
  "length (fft_spec K input sign m) = 64 * (m div SWIFFT_O K * SWIFFT_O K)"
proof -
  have "length (fft_spec_store K (fft_spec_schedule K (fft_spec_rows K input sign g))) = 64 * SWIFFT_O K" for g
  proof -
    have "length (fft_spec_rows K input sign g) = 8"
      by (simp add: fft_spec_rows_def)
    moreover have "\<forall>r \<in> set (fft_spec_rows K input sign g). length r = 8 * SWIFFT_O K"
    proof -
      have "length (fft_spec_load K input sign c k) = 8" for c k
        by (simp add: fft_spec_load_def Let_def Tabl_def Mult_def vmul_def Z1vec_lanes_def)
      then have "length (concat (map (\<lambda>j. fft_spec_load K input sign (g * SWIFFT_O K + j) k) [0..<SWIFFT_O K]))
          = SWIFFT_O K * 8" for k
        by (intro length_concat_chunks) simp
      then show ?thesis
        by (auto simp: fft_spec_rows_def mult.commute)
    qed
    ultimately have "length (fft_spec_schedule K (fft_spec_rows K input sign g)) = 8"
      "\<forall>r \<in> set (fft_spec_schedule K (fft_spec_rows K input sign g)). length r = 8 * SWIFFT_O K"
      using fft_spec_schedule_shape[of "fft_spec_rows K input sign g" "8 * SWIFFT_O K" K] by blast+
    then show ?thesis
      by (intro length_fft_spec_store) simp
  qed
  then have "length (fft_spec K input sign m) = (m div SWIFFT_O K) * (64 * SWIFFT_O K)"
    unfolding fft_spec_def by (intro length_concat_chunks) simp
  then show ?thesis by simp
qed

subsection \<open>The compression facade\<close>

lemma store_whole: "length xs = length mem \<Longrightarrow> store mem 0 xs = xs"
  by (simp add: store_def)

lemma load_whole: "length mem = n \<Longrightarrow> load mem 0 n = mem"
  by (simp add: load_def)

lemma O_pos: "0 < SWIFFT_O K"
  by (simp add: SWIFFT_O_def)

lemma length_fft_spec_groups:
  "length (fft_spec K input sign (n * SWIFFT_O K)) = 64 * (n * SWIFFT_O K)"
  by (simp add: length_fft_spec O_pos)

lemma O_divides_M:
  assumes "iset_ok K"
  obtains n where "SWIFFT_M = n * SWIFFT_O K"
proof -
  have "SWIFFT_LOG2_O K \<in> {0, 1, 2, 3}"
    using assms by (auto simp: iset_ok_def)
  then have "SWIFFT_M = (32 div SWIFFT_O K) * SWIFFT_O K"
    by (auto simp: SWIFFT_M_def SWIFFT_O_def)
  then show ?thesis by (rule that)
qed

lemma SWIFFT_fft_M:
  assumes "iset_ok K" "pin + 256 \<le> length input" "psg + 256 \<le> length sign"
  shows "SWIFFT_fft K junk input pin sign psg (int SWIFFT_M) (uninit junk' (SWIFFT_N * SWIFFT_M)) 0
       = fft_spec K (load input pin 256) (load sign psg 256) 32"
proof -
  obtain n where n: "SWIFFT_M = n * SWIFFT_O K"
    using assms(1) by (rule O_divides_M)
  have M: "n * SWIFFT_O K = 32"
    using n by (simp add: SWIFFT_M_def)
  let ?F = "fft_spec K (load input pin 256) (load sign psg 256) 32"
  have len: "length ?F = 2048"
    using length_fft_spec_groups[of K "load input pin 256" "load sign psg 256" n]
    unfolding M by simp
  have "SWIFFT_fft K junk input pin sign psg (int (n * SWIFFT_O K)) (uninit junk' (SWIFFT_N * SWIFFT_M)) 0 =
     store (uninit junk' (SWIFFT_N * SWIFFT_M)) 0
       (fft_spec K (load input pin (8 * (n * SWIFFT_O K)))
                   (load sign psg (8 * (n * SWIFFT_O K))) (n * SWIFFT_O K))"
    using assms(2,3) by (intro SWIFFT_fft_eq) (simp_all add: M)
  then have "SWIFFT_fft K junk input pin sign psg (int SWIFFT_M) (uninit junk' (SWIFFT_N * SWIFFT_M)) 0 =
     store (uninit junk' (SWIFFT_N * SWIFFT_M)) 0 ?F"
    by (simp add: M SWIFFT_M_def)
  also have "\<dots> = ?F"
    by (rule store_whole) (simp add: len uninit_def SWIFFT_N_def SWIFFT_M_def)
  finally show ?thesis .
qed

lemma SWIFFT_compute_eq:
  assumes "iset_ok K" "2048 \<le> length (SWIFFT_PI_key K)"
    and "pin + 256 \<le> length input" "psg + 256 \<le> length sign" "pout + 64 \<le> length output"
  shows "SWIFFT_compute K junk input pin sign psg output pout =
     store output pout (fftsum_spec K (load (SWIFFT_PI_key K) 0 2048)
        (fft_spec K (load input pin 256) (load sign psg 256) 32) 32)"
proof -
  let ?F = "fft_spec K (load input pin 256) (load sign psg 256) 32"
  obtain n where n: "SWIFFT_M = n * SWIFFT_O K"
    using assms(1) by (rule O_divides_M)
  have M: "n * SWIFFT_O K = 32"
    using n by (simp add: SWIFFT_M_def)
  have len: "length ?F = 2048"
    using length_fft_spec_groups[of K "load input pin 256" "load sign psg 256" n]
    unfolding M by simp
  have "SWIFFT_fftsum K (SWIFFT_PI_key K) 0 ?F 0 (int 32) output pout =
     store output pout (fftsum_spec K (load (SWIFFT_PI_key K) 0 (64 * 32)) (load ?F 0 (64 * 32)) 32)"
    using assms(2,5) len by (intro SWIFFT_fftsum_eq[OF assms(1)]) simp_all
  moreover have "load ?F 0 (64 * 32) = ?F"
    by (rule load_whole) (simp add: len)
  ultimately show ?thesis
    unfolding SWIFFT_compute_def Let_def SWIFFT_fft_M[OF assms(1,3,4)]
    by (simp add: SWIFFT_M_def)
qed

lemma sample_key: "length (SWIFFT_PI_key (sample_iset L lo)) = 2048"
  by (simp add: sample_iset_def SWIFFT_N_def SWIFFT_M_def)

lemma fft_spec_cong:
  assumes "m div SWIFFT_O K = m' div SWIFFT_O K"
    and "\<And>x. x < 8 * (m div SWIFFT_O K * SWIFFT_O K) \<Longrightarrow>
           input ! x = input' ! x \<and> sign ! x = sign' ! x"
  shows "fft_spec K input sign m = fft_spec K input' sign' m'"
proof -
  have rows: "fft_spec_rows K input sign g = fft_spec_rows K input' sign' g"
    if "g < m div SWIFFT_O K" for g
    unfolding fft_spec_rows_def
  proof (intro map_cong refl arg_cong[where f = concat])
    fix k j assume "k \<in> set [0..<8]" "j \<in> set [0..<SWIFFT_O K]"
    then have k: "k < 8" and j: "j < SWIFFT_O K"
      by simp_all
    have "g * SWIFFT_O K + SWIFFT_O K \<le> m div SWIFFT_O K * SWIFFT_O K"
      using that by (rule chunk_le)
    then have "8 * (g * SWIFFT_O K + j) + k < 8 * (m div SWIFFT_O K * SWIFFT_O K)"
      using k j by simp
    from assms(2)[OF this]
    show "fft_spec_load K input sign (g * SWIFFT_O K + j) k =
          fft_spec_load K input' sign' (g * SWIFFT_O K + j) k"
      by (simp add: fft_spec_load_def)
  qed
  show ?thesis
    unfolding fft_spec_def assms(1)[symmetric]
    by (intro arg_cong[where f = concat] map_cong refl) (simp add: rows)
qed

lemma SWIFFT_fft_any:
  assumes "pin + 8 * nat m \<le> length input"
    and "psg + 8 * nat m \<le> length sign"
    and "pout \<le> length fftout"
  shows "SWIFFT_fft K junk input pin sign psg m fftout pout =
     store fftout pout (fft_spec K (load input pin (8 * nat m)) (load sign psg (8 * nat m)) (nat m))"
proof -
  define n where "n = nat m div SWIFFT_O K"
  have O: "0 < SWIFFT_O K"
    by (rule O_pos)
  have le: "n * SWIFFT_O K \<le> nat m"
    unfolding n_def by simp
  have cnt: "nat (m div 2 ^ SWIFFT_LOG2_O K) = n"
  proof (cases "0 \<le> m")
    case True
    then have "m div 2 ^ SWIFFT_LOG2_O K = int (nat m div SWIFFT_O K)"
      by (simp add: SWIFFT_O_def zdiv_int)
    then show ?thesis by (simp add: n_def)
  next
    case False
    then have "m div 2 ^ SWIFFT_LOG2_O K < 0"
      by (simp add: div_neg_pos_less0)
    then show ?thesis using False by (simp add: n_def)
  qed
  have cnt': "nat (int (n * SWIFFT_O K) div 2 ^ SWIFFT_LOG2_O K) = n"
  proof -
    have "int (n * SWIFFT_O K) div 2 ^ SWIFFT_LOG2_O K = int (n * SWIFFT_O K div SWIFFT_O K)"
      by (simp add: SWIFFT_O_def zdiv_int)
    then show ?thesis using O by simp
  qed
  have "SWIFFT_fft K junk input pin sign psg m fftout pout =
        SWIFFT_fft K junk input pin sign psg (int (n * SWIFFT_O K)) fftout pout"
    unfolding SWIFFT_fft_def cnt cnt' ..
  also have "\<dots> = store fftout pout (fft_spec K (load input pin (8 * (n * SWIFFT_O K)))
                        (load sign psg (8 * (n * SWIFFT_O K))) (n * SWIFFT_O K))"
    using assms le by (intro SWIFFT_fft_eq) simp_all
  also have "fft_spec K (load input pin (8 * (n * SWIFFT_O K)))
                        (load sign psg (8 * (n * SWIFFT_O K))) (n * SWIFFT_O K)
      = fft_spec K (load input pin (8 * nat m)) (load sign psg (8 * nat m)) (nat m)"
  proof (rule fft_spec_cong)
    show "n * SWIFFT_O K div SWIFFT_O K = nat m div SWIFFT_O K"
      using O by (simp add: n_def)
  next
    fix x assume "x < 8 * (n * SWIFFT_O K div SWIFFT_O K * SWIFFT_O K)"
    then have x: "x < 8 * (n * SWIFFT_O K)"
      using O by simp
    then have x': "x < 8 * nat m"
      using le by simp
    have "load input pin (8 * (n * SWIFFT_O K)) ! x = input ! (pin + x)"
      "load input pin (8 * nat m) ! x = input ! (pin + x)"
      "load sign psg (8 * (n * SWIFFT_O K)) ! x = sign ! (psg + x)"
      "load sign psg (8 * nat m) ! x = sign ! (psg + x)"
      using x x' assms(1,2) by (simp_all add: nth_load)
    then show "load input pin (8 * (n * SWIFFT_O K)) ! x = load input pin (8 * nat m) ! x \<and>
        load sign psg (8 * (n * SWIFFT_O K)) ! x = load sign psg (8 * nat m) ! x"
      by simp
  qed
  finally show ?thesis .
qed

lemma SWIFFT_fftsum_nat:
  "SWIFFT_fftsum K ikey pkey ifftout pfft m iout pout =
   SWIFFT_fftsum K ikey pkey ifftout pfft (int (nat m)) iout pout"
  by (simp add: SWIFFT_fftsum_def)

lemma SWIFFT_fftsum_any:
  assumes "iset_ok K"
    and "pkey + 64 * nat m \<le> length ikey"
    and "pfft + 64 * nat m \<le> length ifftout"
    and "pout + 64 \<le> length iout"
  shows "SWIFFT_fftsum K ikey pkey ifftout pfft m iout pout =
     store iout pout (fftsum_spec K (load ikey pkey (64 * nat m)) (load ifftout pfft (64 * nat m)) (nat m))"
  by (subst SWIFFT_fftsum_nat) (rule SWIFFT_fftsum_eq[OF assms])

subsection \<open>The batched driver\<close>

lemma length_slice: "Suc i * B \<le> length mem \<Longrightarrow> length (block_of B mem i) = B"
  unfolding block_of_def by (rule length_load) simp

lemma fold_blockwise:
  assumes "n * B \<le> length mem"
    and step: "\<And>i mem'. i < n \<Longrightarrow> length mem' = length mem \<Longrightarrow>
                 f i mem' = store mem' (i * B) (h i (load mem' (i * B) B))"
    and len: "\<And>i x. i < n \<Longrightarrow> length x = B \<Longrightarrow> length (h i x) = B"
  shows "fold f [0..<n] mem = blockwise n B (\<lambda>i. h i (block_of B mem i)) mem"
proof -
  define g where "g = (\<lambda>i. h i (block_of B mem i))"
  have lg: "length (g i) = B" if "i < n" for i
  proof -
    have "Suc i * B \<le> n * B"
      using that by (intro mult_le_mono1) simp
    then have "length (block_of B mem i) = B"
      using assms(1) by (intro length_slice) simp
    then show ?thesis
      unfolding g_def by (rule len[OF that])
  qed
  have "k \<le> n \<Longrightarrow> fold f [0..<k] mem = concat (map g [0..<k]) @ drop (k * B) mem" for k
  proof (induction k)
    case 0
    show ?case by simp
  next
    case (Suc k)
    let ?P = "concat (map g [0..<k])" and ?D = "drop (k * B) mem"
    have k: "k < n" using Suc.prems by simp
    have lP: "length ?P = k * B"
      using k by (intro length_concat_chunks) (simp add: lg)
    have kB: "k * B + B \<le> length mem"
      using chunk_le[OF k, of B] assms(1) by simp
    have lR: "length (?P @ ?D) = length mem"
      using lP kB by simp
    have ld: "load (?P @ ?D) (k * B) B = block_of B mem k"
      using lP by (simp add: load_def block_of_def)
    have "fold f [0..<Suc k] mem = f k (?P @ ?D)"
      using Suc by simp
    also have "\<dots> = store (?P @ ?D) (k * B) (h k (load (?P @ ?D) (k * B) B))"
      by (rule step[OF k lR])
    also have "\<dots> = store (?P @ ?D) (k * B) (g k)"
      unfolding ld unfolding g_def ..
    also have "\<dots> = ?P @ g k @ drop (length (g k)) ?D"
      using lP by (rule store_at_end)
    also have "\<dots> = concat (map g [0..<Suc k]) @ drop (Suc k * B) mem"
      by (simp add: lg[OF k] add.commute)
    finally show ?case .
  qed
  from this[of n] show ?thesis
    by (simp add: blockwise_def g_def)
qed


lemma block_offset: "i * SWIFFT_OUTPUT_BLOCK_SIZE div sizeof_int16 = i * 64"
  by (simp add: SWIFFT_OUTPUT_BLOCK_SIZE_def sizeof_int16_def)


lemma blockwise_cong:
  "(\<And>i. i < n \<Longrightarrow> f i = g i) \<Longrightarrow> blockwise n B f mem = blockwise n B g mem"
  unfolding blockwise_def by (intro arg_cong2[where f = append] arg_cong[where f = concat] map_cong) simp_all

lemma batch_local:
  fixes outp :: "'a list"
  assumes "n * B \<le> length outp"
    and op: "\<And>i mem p. i < n \<Longrightarrow> p + B \<le> length mem \<Longrightarrow>
               Op i mem p = store mem p (G i (load mem p B))"
    and len: "\<And>i x. i < n \<Longrightarrow> length x = B \<Longrightarrow> length (G i x) = B"
  shows "fold (\<lambda>i mem. Op i mem (i * B)) [0..<n] outp =
         blockwise n B (\<lambda>i. Op i (block_of B outp i) 0) outp"
proof -
  have alone: "Op i x 0 = G i x" if "i < n" "length x = B" for i x
  proof -
    have "Op i x 0 = store x 0 (G i (load x 0 B))"
      using that by (intro op) simp_all
    also have "load x 0 B = x"
      using that(2) by (rule load_whole)
    also have "store x 0 (G i x) = G i x"
      using len[OF that] that(2) by (intro store_whole) simp
    finally show ?thesis .
  qed
  show ?thesis
  proof (rule fold_blockwise[OF assms(1)])
    fix i and mem' :: "'a list" assume i: "i < n" and l: "length mem' = length outp"
    have b: "i * B + B \<le> length mem'"
      using chunk_le[OF i, of B] assms(1) l by simp
    then have "length (load mem' (i * B) B) = B"
      by (rule length_load)
    from alone[OF i this] op[OF i b]
    show "Op i mem' (i * B) = store mem' (i * B) (Op i (load mem' (i * B) B) 0)"
      by simp
  next
    fix i and x :: "'a list" assume "i < n" "length x = B"
    then show "length (Op i x 0) = B"
      using alone len by simp
  qed
qed

lemma batch_binop:
  fixes outp :: "'a list"
  assumes "n * 64 \<le> length outp" "n * 64 \<le> length operand"
    and op: "\<And>mem p opd q. p + 64 \<le> length mem \<Longrightarrow> q + 64 \<le> length opd \<Longrightarrow>
               Op mem p opd q = store mem p (map2 F (load mem p 64) (load opd q 64))"
  shows "fold (\<lambda>i mem. Op mem (i * 64) operand (i * 64)) [0..<n] outp =
         blockwise n 64 (\<lambda>i. Op (block_of 64 outp i) 0 (block_of 64 operand i) 0) outp"
proof -
  have in_opd: "i * 64 + 64 \<le> length operand" if "i < n" for i
    using chunk_le[OF that, of 64] assms(2) by simp
  have "fold (\<lambda>i mem. Op mem (i * 64) operand (i * 64)) [0..<n] outp =
        blockwise n 64 (\<lambda>i. Op (block_of 64 outp i) 0 operand (i * 64)) outp"
  proof (rule batch_local[where G = "\<lambda>i x. map2 F x (load operand (i * 64) 64)", OF assms(1)])
    fix i mem p assume "i < n" "p + 64 \<le> length (mem :: 'a list)"
    then show "Op mem p operand (i * 64) = store mem p (map2 F (load mem p 64) (load operand (i * 64) 64))"
      using in_opd by (intro op) simp_all
  next
    fix i and x :: "'a list" assume "i < n" "length x = 64"
    then show "length (map2 F x (load operand (i * 64) 64)) = 64"
      using in_opd[of i] by (simp add: length_load)
  qed
  also have "\<dots> = blockwise n 64 (\<lambda>i. Op (block_of 64 outp i) 0 (block_of 64 operand i) 0) outp"
  proof (rule blockwise_cong)
    fix i assume i: "i < n"
    have lo: "length (block_of 64 outp i) = 64"
      using chunk_le[OF i, of 64] assms(1) by (intro length_slice) simp
    have lb: "length (block_of 64 operand i) = 64"
      using in_opd[OF i] by (intro length_slice) simp
    have "Op (block_of 64 outp i) 0 operand (i * 64) =
        store (block_of 64 outp i) 0 (map2 F (load (block_of 64 outp i) 0 64) (load operand (i * 64) 64))"
      using lo in_opd[OF i] by (intro op) simp_all
    moreover have "Op (block_of 64 outp i) 0 (block_of 64 operand i) 0 =
        store (block_of 64 outp i) 0 (map2 F (load (block_of 64 outp i) 0 64) (load (block_of 64 operand i) 0 64))"
      using lo lb by (intro op) simp_all
    moreover have "load (block_of 64 operand i) 0 64 = load operand (i * 64) 64"
      using load_whole[OF lb] by (simp add: block_of_def)
    ultimately show "Op (block_of 64 outp i) 0 operand (i * 64) =
        Op (block_of 64 outp i) 0 (block_of 64 operand i) 0"
      by simp
  qed
  finally show ?thesis .
qed

lemma batch_constop:
  fixes outp :: "'a list"
  assumes "n * 64 \<le> length outp"
    and op: "\<And>mem p c. p + 64 \<le> length mem \<Longrightarrow> Op mem p c = store mem p (G c (load mem p 64))"
    and len: "\<And>c x. length x = 64 \<Longrightarrow> length (G c x) = 64"
  shows "fold (\<lambda>i mem. Op mem (i * 64) (cs ! i)) [0..<n] outp =
         blockwise n 64 (\<lambda>i. Op (block_of 64 outp i) 0 (cs ! i)) outp"
  by (rule batch_local[where G = "\<lambda>i. G (cs ! i)" and Op = "\<lambda>i mem p. Op mem p (cs ! i)", OF assms(1)])
     (simp_all add: op len)


lemma batch_general:
  fixes outp :: "'a list"
  assumes "n * B \<le> length outp"
    and op: "\<And>i mem p. i < n \<Longrightarrow> p + B \<le> length mem \<Longrightarrow>
               Op i mem p = store mem p (G i (load mem p B))"
    and alone: "\<And>i x. i < n \<Longrightarrow> length x = B \<Longrightarrow> S i x = G i x"
    and len: "\<And>i x. i < n \<Longrightarrow> length x = B \<Longrightarrow> length (G i x) = B"
  shows "fold (\<lambda>i mem. Op i mem (i * B)) [0..<n] outp =
         blockwise n B (\<lambda>i. S i (block_of B outp i)) outp"
proof (rule fold_blockwise[OF assms(1)])
  fix i and mem' :: "'a list" assume i: "i < n" and l: "length mem' = length outp"
  have b: "i * B + B \<le> length mem'"
    using chunk_le[OF i, of B] assms(1) l by simp
  then have "length (load mem' (i * B) B) = B"
    by (rule length_load)
  from alone[OF i this] op[OF i b]
  show "Op i mem' (i * B) = store mem' (i * B) (S i (load mem' (i * B) B))"
    by simp
next
  fix i and x :: "'a list" assume "i < n" "length x = B"
  then show "length (S i x) = B"
    using alone len by simp
qed

lemma map2_second: "length xs = length ys \<Longrightarrow> map2 (\<lambda>a b. b) xs ys = ys"
  by (induction xs ys rule: list_induct2) simp_all

lemma SWIFFT_Set_eq:
  assumes "pout + 64 \<le> length output" "popd + 64 \<le> length operand"
  shows "SWIFFT_Set output pout operand popd =
     store output pout (map2 (\<lambda>a b. b) (load output pout 64) (load operand popd 64))"
  using assms by (simp add: SWIFFT_Set_def OUTPUT_BLOCK_ELEMS_64 map2_second length_load)

lemma strides_fit_le:
  assumes "strides_fit nblocks c" "i < nat nblocks"
  shows "int i * int c \<le> INT_MAX"
proof -
  have "int i \<le> nblocks - 1"
    using assms(2) by linarith
  then have "int i * int c \<le> (nblocks - 1) * int c"
    by (intro mult_right_mono) simp_all
  then show ?thesis
    using assms(1) by (simp add: strides_fit_def)
qed

lemma strides_fit_mono:
  assumes "strides_fit nblocks d" "c \<le> d"
  shows "strides_fit nblocks c"
proof (cases "0 \<le> nblocks - 1")
  case True
  then have "(nblocks - 1) * int c \<le> (nblocks - 1) * int d"
    using assms(2) by (intro mult_left_mono) simp_all
  then show ?thesis
    using assms(1) by (simp add: strides_fit_def)
next
  case False
  then have "(nblocks - 1) * int c \<le> 0"
    by (intro mult_nonpos_nonneg) simp_all
  then show ?thesis
    by (simp add: strides_fit_def INT_MAX_def)
qed

lemma int_mul_fits:
  assumes "strides_fit nblocks c" "i < nat nblocks"
  shows "int_mul (int i) (int c) = Some (int (i * c))"
proof -
  have "INT_MIN \<le> 0" "(0::int) \<le> int i * int c"
    by (simp_all add: INT_MIN_def)
  then have "INT_MIN \<le> int i * int c"
    by (rule order_trans)
  with strides_fit_le[OF assms] show ?thesis
    by (simp add: int_mul_def)
qed

lemma int_mul_N_M:
  assumes "strides_fit nblocks (SWIFFT_N * SWIFFT_M)" "i < nat nblocks"
  shows "Option.bind (int_mul (int i) (int SWIFFT_N)) (\<lambda>a. int_mul a (int SWIFFT_M))
       = Some (int (i * 2048))"
proof -
  have "strides_fit nblocks SWIFFT_N"
    using assms(1) by (rule strides_fit_mono) (simp add: SWIFFT_M_def)
  then have 1: "int_mul (int i) (int SWIFFT_N) = Some (int (i * SWIFFT_N))"
    using assms(2) by (rule int_mul_fits)
  have e: "int (i * SWIFFT_N) * int SWIFFT_M = int i * int (SWIFFT_N * SWIFFT_M)"
    by simp
  have "INT_MIN \<le> 0" "(0::int) \<le> int (i * SWIFFT_N) * int SWIFFT_M"
    by (simp_all add: INT_MIN_def)
  then have "INT_MIN \<le> int (i * SWIFFT_N) * int SWIFFT_M"
    by (rule order_trans)
  moreover have "int (i * SWIFFT_N) * int SWIFFT_M \<le> INT_MAX"
    unfolding e by (rule strides_fit_le[OF assms])
  ultimately have 2: "int_mul (int (i * SWIFFT_N)) (int SWIFFT_M) = Some (int (i * SWIFFT_N) * int SWIFFT_M)"
    by (simp only: int_mul_def simp_thms if_True)
  have 3: "int (i * SWIFFT_N) * int SWIFFT_M = int (i * 2048)"
    by (simp add: SWIFFT_N_def SWIFFT_M_def)
  show ?thesis
    unfolding 1 by (simp only: bind.bind_lunit 2 3)
qed

lemma size_t_mul_fits:
  assumes "strides_fit nblocks (SWIFFT_N * SWIFFT_M)" "i < nat nblocks"
  shows "size_t_mul i (SWIFFT_OUTPUT_BLOCK_SIZE div sizeof_int16) = i * 64"
proof -
  have "int i * 2048 \<le> 2 ^ 31 - 1"
    using strides_fit_le[OF assms] by (simp add: SWIFFT_N_def SWIFFT_M_def INT_MAX_def)
  then have "i * 64 < 2 ^ 64"
    by simp
  then show ?thesis
    by (simp add: size_t_mul_def SWIFFT_OUTPUT_BLOCK_SIZE_def sizeof_int16_def)
qed

lemma int_mul_256:
  assumes "strides_fit nblocks SWIFFT_INPUT_BLOCK_SIZE" "i < nat nblocks"
  shows "int_mul (int i) (int SWIFFT_INPUT_BLOCK_SIZE) = Some (int (i * 256))"
  using int_mul_fits[OF assms] by (simp add: SWIFFT_INPUT_BLOCK_SIZE_def)

lemma int_mul_128:
  assumes "strides_fit nblocks SWIFFT_OUTPUT_BLOCK_SIZE" "i < nat nblocks"
  shows "int_mul (int i) (int SWIFFT_OUTPUT_BLOCK_SIZE) = Some (int (i * 128))"
  using int_mul_fits[OF assms] by (simp add: SWIFFT_OUTPUT_BLOCK_SIZE_def)


lemma hash_at_128:
  "hash_at (int (i * 128)) = i * 64"
  "hash_at (int i * 128) = i * 64"
  "nat (int i * 256) = i * 256"
  "nat (int i * 2048) = i * 2048"
  "nat (int i * 64) = i * 64"
  by (simp_all add: hash_at_def sizeof_int16_def nat_mult_distrib)

lemma strides_fit_input:
  "strides_fit nblocks (SWIFFT_N * SWIFFT_M) \<Longrightarrow> strides_fit nblocks SWIFFT_INPUT_BLOCK_SIZE"
  by (erule strides_fit_mono) (simp add: SWIFFT_N_def SWIFFT_M_def SWIFFT_INPUT_BLOCK_SIZE_def)

lemma strides_fit_output:
  "strides_fit nblocks SWIFFT_INPUT_BLOCK_SIZE \<Longrightarrow> strides_fit nblocks SWIFFT_OUTPUT_BLOCK_SIZE"
  by (erule strides_fit_mono) (simp add: SWIFFT_OUTPUT_BLOCK_SIZE_def SWIFFT_INPUT_BLOCK_SIZE_def)

lemma for_blocks_Some:
  assumes "\<And>i mem. i < nat nblocks \<Longrightarrow> body (int i) mem = Some (f i mem)"
  shows "for_blocks nblocks body mem = Some (fold f [0..<nat nblocks] mem)"
proof -
  have "k \<le> nat nblocks \<Longrightarrow>
      fold (\<lambda>i r. Option.bind r (body (int i))) [0..<k] (Some mem) = Some (fold f [0..<k] mem)" for k
    by (induction k) (simp_all add: assms)
  then show ?thesis
    by (simp add: for_blocks_def)
qed

lemma SWIFFT_fftMultiple_fold:
  assumes "strides_fit nblocks (SWIFFT_N * SWIFFT_M)"
  shows "SWIFFT_fftMultiple K junk nblocks input sign m fftout =
     Some (fold (\<lambda>i mem. SWIFFT_fft K junk input (i * 256) sign (i * 256) m mem (i * 2048))
             [0..<nat nblocks] fftout)"
  unfolding SWIFFT_fftMultiple_def
  by (rule for_blocks_Some)
     (simp add: int_mul_256[OF strides_fit_input[OF assms]] int_mul_N_M[OF assms] hash_at_128)

lemma SWIFFT_fftsumMultiple_fold:
  assumes "strides_fit nblocks (SWIFFT_N * SWIFFT_M)"
  shows "SWIFFT_fftsumMultiple K nblocks ikey ifftout m iout =
     Some (fold (\<lambda>i mem. SWIFFT_fftsum K ikey 0 ifftout (i * 2048) m mem (i * 64))
             [0..<nat nblocks] iout)"
  unfolding SWIFFT_fftsumMultiple_def
  by (rule for_blocks_Some) (simp add: int_mul_N_M[OF assms] size_t_mul_fits[OF assms] hash_at_128)


lemma SWIFFT_ConstSetMultiple_fold:
  assumes "strides_fit nblocks SWIFFT_OUTPUT_BLOCK_SIZE"
  shows "SWIFFT_ConstSetMultiple K nblocks output operand =
     Some (fold (\<lambda>i mem. SWIFFT_ConstSet K mem (i * 64) (operand ! i)) [0..<nat nblocks] output)"
  unfolding SWIFFT_ConstSetMultiple_def
  by (rule for_blocks_Some) (simp add: int_mul_128[OF assms] hash_at_128)

lemma SWIFFT_ConstAddMultiple_fold:
  assumes "strides_fit nblocks SWIFFT_OUTPUT_BLOCK_SIZE"
  shows "SWIFFT_ConstAddMultiple K nblocks output operand =
     Some (fold (\<lambda>i mem. SWIFFT_ConstAdd K mem (i * 64) (operand ! i)) [0..<nat nblocks] output)"
  unfolding SWIFFT_ConstAddMultiple_def
  by (rule for_blocks_Some) (simp add: int_mul_128[OF assms] hash_at_128)

lemma SWIFFT_ConstSubMultiple_fold:
  assumes "strides_fit nblocks SWIFFT_OUTPUT_BLOCK_SIZE"
  shows "SWIFFT_ConstSubMultiple K nblocks output operand =
     Some (fold (\<lambda>i mem. SWIFFT_ConstSub K mem (i * 64) (operand ! i)) [0..<nat nblocks] output)"
  unfolding SWIFFT_ConstSubMultiple_def
  by (rule for_blocks_Some) (simp add: int_mul_128[OF assms] hash_at_128)

lemma SWIFFT_ConstMulMultiple_fold:
  assumes "strides_fit nblocks SWIFFT_OUTPUT_BLOCK_SIZE"
  shows "SWIFFT_ConstMulMultiple K nblocks output operand =
     Some (fold (\<lambda>i mem. SWIFFT_ConstMul K mem (i * 64) (operand ! i)) [0..<nat nblocks] output)"
  unfolding SWIFFT_ConstMulMultiple_def
  by (rule for_blocks_Some) (simp add: int_mul_128[OF assms] hash_at_128)

lemma SWIFFT_SetMultiple_fold:
  assumes "strides_fit nblocks SWIFFT_OUTPUT_BLOCK_SIZE"
  shows "SWIFFT_SetMultiple nblocks output operand =
     Some (fold (\<lambda>i mem. SWIFFT_Set mem (i * 64) operand (i * 64)) [0..<nat nblocks] output)"
  unfolding SWIFFT_SetMultiple_def
  by (rule for_blocks_Some) (simp add: int_mul_128[OF assms] hash_at_128)

lemma SWIFFT_AddMultiple_fold:
  assumes "strides_fit nblocks SWIFFT_OUTPUT_BLOCK_SIZE"
  shows "SWIFFT_AddMultiple K nblocks output operand =
     Some (fold (\<lambda>i mem. SWIFFT_Add K mem (i * 64) operand (i * 64)) [0..<nat nblocks] output)"
  unfolding SWIFFT_AddMultiple_def
  by (rule for_blocks_Some) (simp add: int_mul_128[OF assms] hash_at_128)

lemma SWIFFT_SubMultiple_fold:
  assumes "strides_fit nblocks SWIFFT_OUTPUT_BLOCK_SIZE"
  shows "SWIFFT_SubMultiple K nblocks output operand =
     Some (fold (\<lambda>i mem. SWIFFT_Sub K mem (i * 64) operand (i * 64)) [0..<nat nblocks] output)"
  unfolding SWIFFT_SubMultiple_def
  by (rule for_blocks_Some) (simp add: int_mul_128[OF assms] hash_at_128)

lemma SWIFFT_MulMultiple_fold:
  assumes "strides_fit nblocks SWIFFT_OUTPUT_BLOCK_SIZE"
  shows "SWIFFT_MulMultiple K nblocks output operand =
     Some (fold (\<lambda>i mem. SWIFFT_Mul K mem (i * 64) operand (i * 64)) [0..<nat nblocks] output)"
  unfolding SWIFFT_MulMultiple_def
  by (rule for_blocks_Some) (simp add: int_mul_128[OF assms] hash_at_128)

lemma SWIFFT_ComputeMultiple_fold:
  assumes "strides_fit nblocks SWIFFT_INPUT_BLOCK_SIZE"
  shows "SWIFFT_ComputeMultiple K junk nblocks input output =
     Some (fold (\<lambda>i mem. SWIFFT_compute K junk input (i * 256) SWIFFT_sign0 0 mem (i * 64))
             [0..<nat nblocks] output)"
  unfolding SWIFFT_ComputeMultiple_def
  by (rule for_blocks_Some)
     (simp add: int_mul_256[OF assms] int_mul_128[OF strides_fit_output[OF assms]] hash_at_128)

lemma SWIFFT_ComputeMultipleSigned_fold:
  assumes "strides_fit nblocks SWIFFT_INPUT_BLOCK_SIZE"
  shows "SWIFFT_ComputeMultipleSigned K junk nblocks input sign output =
     Some (fold (\<lambda>i mem. SWIFFT_compute K junk input (i * 256) sign (i * 256) mem (i * 64))
             [0..<nat nblocks] output)"
  unfolding SWIFFT_ComputeMultipleSigned_def
  by (rule for_blocks_Some)
     (simp add: int_mul_256[OF assms] int_mul_128[OF strides_fit_output[OF assms]] hash_at_128)

lemma SWIFFT_ConstSetMultiple_eq:
  assumes "iset_ok K" "nat nblocks * 64 \<le> length output"
    and fit: "strides_fit nblocks SWIFFT_OUTPUT_BLOCK_SIZE"
  shows "SWIFFT_ConstSetMultiple K nblocks output cs =
     Some (blockwise (nat nblocks) 64 (\<lambda>i. SWIFFT_ConstSet K (block_of 64 output i) 0 (cs ! i)) output)"
  unfolding SWIFFT_ConstSetMultiple_fold[OF fit] option.inject
  by (rule batch_constop[where G = "\<lambda>c x. replicate 64 (SWIFFT_modP K c)", OF assms(2)])
     (simp_all add: SWIFFT_ConstSet_eq[OF assms(1)] OUTPUT_BLOCK_ELEMS_64)

lemma SWIFFT_ConstAddMultiple_eq:
  assumes "iset_ok K" "nat nblocks * 64 \<le> length output"
    and fit: "strides_fit nblocks SWIFFT_OUTPUT_BLOCK_SIZE"
  shows "SWIFFT_ConstAddMultiple K nblocks output cs =
     Some (blockwise (nat nblocks) 64 (\<lambda>i. SWIFFT_ConstAdd K (block_of 64 output i) 0 (cs ! i)) output)"
  unfolding SWIFFT_ConstAddMultiple_fold[OF fit] option.inject
  by (rule batch_constop[where G = "\<lambda>c. map (\<lambda>x. SWIFFT_modP K (x + c))", OF assms(2)])
     (simp_all add: SWIFFT_ConstAdd_eq[OF assms(1)] OUTPUT_BLOCK_ELEMS_64)

lemma SWIFFT_ConstSubMultiple_eq:
  assumes "iset_ok K" "nat nblocks * 64 \<le> length output"
    and fit: "strides_fit nblocks SWIFFT_OUTPUT_BLOCK_SIZE"
  shows "SWIFFT_ConstSubMultiple K nblocks output cs =
     Some (blockwise (nat nblocks) 64 (\<lambda>i. SWIFFT_ConstSub K (block_of 64 output i) 0 (cs ! i)) output)"
  unfolding SWIFFT_ConstSubMultiple_fold[OF fit] option.inject
  by (rule batch_constop[where G = "\<lambda>c. map (\<lambda>x. SWIFFT_modP K (x - c))", OF assms(2)])
     (simp_all add: SWIFFT_ConstSub_eq[OF assms(1)] OUTPUT_BLOCK_ELEMS_64)

lemma SWIFFT_ConstMulMultiple_eq:
  assumes "iset_ok K" "nat nblocks * 64 \<le> length output"
    and fit: "strides_fit nblocks SWIFFT_OUTPUT_BLOCK_SIZE"
  shows "SWIFFT_ConstMulMultiple K nblocks output cs =
     Some (blockwise (nat nblocks) 64 (\<lambda>i. SWIFFT_ConstMul K (block_of 64 output i) 0 (cs ! i)) output)"
  unfolding SWIFFT_ConstMulMultiple_fold[OF fit] option.inject
  by (rule batch_constop[where G = "\<lambda>c. map (\<lambda>x. SWIFFT_modP K (x * c))", OF assms(2)])
     (simp_all add: SWIFFT_ConstMul_eq[OF assms(1)] OUTPUT_BLOCK_ELEMS_64)

lemma SWIFFT_SetMultiple_eq:
  assumes "nat nblocks * 64 \<le> length output" "nat nblocks * 64 \<le> length operand"
    and fit: "strides_fit nblocks SWIFFT_OUTPUT_BLOCK_SIZE"
  shows "SWIFFT_SetMultiple nblocks output operand =
     Some (blockwise (nat nblocks) 64 (\<lambda>i. SWIFFT_Set (block_of 64 output i) 0 (block_of 64 operand i) 0) output)"
  unfolding SWIFFT_SetMultiple_fold[OF fit] option.inject
  by (rule batch_binop[where F = "\<lambda>a b. b", OF assms(1,2)]) (rule SWIFFT_Set_eq)

lemma SWIFFT_AddMultiple_eq:
  assumes "iset_ok K" "nat nblocks * 64 \<le> length output" "nat nblocks * 64 \<le> length operand"
    and fit: "strides_fit nblocks SWIFFT_OUTPUT_BLOCK_SIZE"
  shows "SWIFFT_AddMultiple K nblocks output operand =
     Some (blockwise (nat nblocks) 64 (\<lambda>i. SWIFFT_Add K (block_of 64 output i) 0 (block_of 64 operand i) 0) output)"
  unfolding SWIFFT_AddMultiple_fold[OF fit] option.inject
  by (rule batch_binop[where F = "\<lambda>x y. SWIFFT_modP K (x + y)", OF assms(2,3)])
     (simp add: SWIFFT_Add_eq[OF assms(1)] OUTPUT_BLOCK_ELEMS_64)

lemma SWIFFT_SubMultiple_eq:
  assumes "iset_ok K" "nat nblocks * 64 \<le> length output" "nat nblocks * 64 \<le> length operand"
    and fit: "strides_fit nblocks SWIFFT_OUTPUT_BLOCK_SIZE"
  shows "SWIFFT_SubMultiple K nblocks output operand =
     Some (blockwise (nat nblocks) 64 (\<lambda>i. SWIFFT_Sub K (block_of 64 output i) 0 (block_of 64 operand i) 0) output)"
  unfolding SWIFFT_SubMultiple_fold[OF fit] option.inject
  by (rule batch_binop[where F = "\<lambda>x y. SWIFFT_modP K (x - y)", OF assms(2,3)])
     (simp add: SWIFFT_Sub_eq[OF assms(1)] OUTPUT_BLOCK_ELEMS_64)

lemma SWIFFT_MulMultiple_eq:
  assumes "iset_ok K" "nat nblocks * 64 \<le> length output" "nat nblocks * 64 \<le> length operand"
    and fit: "strides_fit nblocks SWIFFT_OUTPUT_BLOCK_SIZE"
  shows "SWIFFT_MulMultiple K nblocks output operand =
     Some (blockwise (nat nblocks) 64 (\<lambda>i. SWIFFT_Mul K (block_of 64 output i) 0 (block_of 64 operand i) 0) output)"
  unfolding SWIFFT_MulMultiple_fold[OF fit] option.inject
  by (rule batch_binop[where F = "\<lambda>x y. SWIFFT_modP K (x * y)", OF assms(2,3)])
     (simp add: SWIFFT_Mul_eq[OF assms(1)] OUTPUT_BLOCK_ELEMS_64)


lemma load_block:
  "k \<le> B \<Longrightarrow> load (block_of B mem i) 0 k = load mem (i * B) k"
  unfolding block_of_def using load_load[of 0 k B mem "i * B"] by simp

lemma length_hash:
  assumes "iset_ok K" "2048 \<le> length key"
  shows "length (fftsum_spec K (load key 0 2048) (fft_spec K a b 32) 32) = 64"
proof -
  obtain n where n: "SWIFFT_M = n * SWIFFT_O K"
    using assms(1) by (rule O_divides_M)
  have "length (fft_spec K a b 32) = 2048"
    using length_fft_spec_groups[of K a b n] n by (simp add: SWIFFT_M_def)
  then show ?thesis
    using assms(2) by (intro length_fftsum_spec[OF assms(1)]) (simp_all add: length_load)
qed

lemma batch_offsets:
  "i * SWIFFT_INPUT_BLOCK_SIZE = i * 256"
  "i * SWIFFT_N * SWIFFT_M = i * 2048"
  "i * (SWIFFT_OUTPUT_BLOCK_SIZE div sizeof_int16) = i * 64"
  "i * SWIFFT_COMPACT_BLOCK_SIZE = i * 64"
  by (simp_all add: SWIFFT_INPUT_BLOCK_SIZE_def SWIFFT_N_def SWIFFT_M_def
      SWIFFT_OUTPUT_BLOCK_SIZE_def sizeof_int16_def SWIFFT_COMPACT_BLOCK_SIZE_def)

lemma SWIFFT_ComputeMultipleSigned_eq:
  assumes "iset_ok K" "2048 \<le> length (SWIFFT_PI_key K)"
    and "nat nblocks * 256 \<le> length input" "nat nblocks * 256 \<le> length sign"
    and "nat nblocks * 64 \<le> length output"
    and fit: "strides_fit nblocks SWIFFT_INPUT_BLOCK_SIZE"
  shows "SWIFFT_ComputeMultipleSigned K junk nblocks input sign output =
     Some (blockwise (nat nblocks) 64
       (\<lambda>i. SWIFFT_ComputeSigned K (junk' i) (block_of 256 input i) 0 (block_of 256 sign i) 0
                (block_of 64 output i) 0) output)"
  unfolding SWIFFT_ComputeMultipleSigned_fold[OF fit] option.inject
proof (rule batch_general[where G = "\<lambda>i x. fftsum_spec K (load (SWIFFT_PI_key K) 0 2048)
        (fft_spec K (load input (i * 256) 256) (load sign (i * 256) 256) 32) 32", OF assms(5)])
  fix i and mem :: "int16 list" and p assume i: "i < nat nblocks" and p: "p + 64 \<le> length mem"
  have "i * 256 + 256 \<le> length input" "i * 256 + 256 \<le> length sign"
    using chunk_le[OF i, of 256] assms(3,4) by simp_all
  then show "SWIFFT_compute K junk input (i * 256) sign (i * 256) mem p =
      store mem p (fftsum_spec K (load (SWIFFT_PI_key K) 0 2048)
        (fft_spec K (load input (i * 256) 256) (load sign (i * 256) 256) 32) 32)"
    using p by (intro SWIFFT_compute_eq[OF assms(1,2)])
next
  fix i and x :: "int16 list" assume i: "i < nat nblocks" and x: "length x = 64"
  have "Suc i * 256 \<le> length input" "Suc i * 256 \<le> length sign"
    using chunk_le[OF i, of 256] assms(3,4) by simp_all
  then have "0 + 256 \<le> length (block_of 256 input i)" "0 + 256 \<le> length (block_of 256 sign i)"
    by (simp_all add: length_slice)
  then have "SWIFFT_ComputeSigned K (junk' i) (block_of 256 input i) 0 (block_of 256 sign i) 0 x 0 =
      store x 0 (fftsum_spec K (load (SWIFFT_PI_key K) 0 2048)
        (fft_spec K (load (block_of 256 input i) 0 256) (load (block_of 256 sign i) 0 256) 32) 32)"
    unfolding SWIFFT_ComputeSigned_def using x
    by (intro SWIFFT_compute_eq[OF assms(1,2)]) simp_all
  then show "SWIFFT_ComputeSigned K (junk' i) (block_of 256 input i) 0 (block_of 256 sign i) 0 x 0 =
      fftsum_spec K (load (SWIFFT_PI_key K) 0 2048)
        (fft_spec K (load input (i * 256) 256) (load sign (i * 256) 256) 32) 32"
    using x by (simp add: load_block store_whole length_hash[OF assms(1,2)])
next
  fix i and x :: "int16 list"
  show "length (fftsum_spec K (load (SWIFFT_PI_key K) 0 2048)
        (fft_spec K (load input (i * 256) 256) (load sign (i * 256) 256) 32) 32) = 64"
    by (rule length_hash[OF assms(1,2)])
qed

lemma SWIFFT_ComputeMultiple_eq:
  assumes "iset_ok K" "2048 \<le> length (SWIFFT_PI_key K)"
    and "nat nblocks * 256 \<le> length input"
    and "nat nblocks * 64 \<le> length output"
    and fit: "strides_fit nblocks SWIFFT_INPUT_BLOCK_SIZE"
  shows "SWIFFT_ComputeMultiple K junk nblocks input output =
     Some (blockwise (nat nblocks) 64
       (\<lambda>i. SWIFFT_Compute K (junk' i) (block_of 256 input i) 0 (block_of 64 output i) 0) output)"
  unfolding SWIFFT_ComputeMultiple_fold[OF fit] option.inject
proof (rule batch_general[where G = "\<lambda>i x. fftsum_spec K (load (SWIFFT_PI_key K) 0 2048)
        (fft_spec K (load input (i * 256) 256) (load SWIFFT_sign0 0 256) 32) 32", OF assms(4)])
  have s0: "0 + 256 \<le> length SWIFFT_sign0"
    by (simp add: SWIFFT_sign0_def SWIFFT_INPUT_BLOCK_SIZE_def)
  {
    fix i and mem :: "int16 list" and p assume i: "i < nat nblocks" and p: "p + 64 \<le> length mem"
    have "i * 256 + 256 \<le> length input"
      using chunk_le[OF i, of 256] assms(3) by simp
    then show "SWIFFT_compute K junk input (i * 256) SWIFFT_sign0 0 mem p =
        store mem p (fftsum_spec K (load (SWIFFT_PI_key K) 0 2048)
          (fft_spec K (load input (i * 256) 256) (load SWIFFT_sign0 0 256) 32) 32)"
      using p s0 by (intro SWIFFT_compute_eq[OF assms(1,2)])
  next
    fix i and x :: "int16 list" assume i: "i < nat nblocks" and x: "length x = 64"
    have "Suc i * 256 \<le> length input"
      using chunk_le[OF i, of 256] assms(3) by simp
    then have "0 + 256 \<le> length (block_of 256 input i)"
      by (simp add: length_slice)
    then have "SWIFFT_Compute K (junk' i) (block_of 256 input i) 0 x 0 =
        store x 0 (fftsum_spec K (load (SWIFFT_PI_key K) 0 2048)
          (fft_spec K (load (block_of 256 input i) 0 256) (load SWIFFT_sign0 0 256) 32) 32)"
      unfolding SWIFFT_Compute_def using x s0
      by (intro SWIFFT_compute_eq[OF assms(1,2)]) simp_all
    then show "SWIFFT_Compute K (junk' i) (block_of 256 input i) 0 x 0 =
        fftsum_spec K (load (SWIFFT_PI_key K) 0 2048)
          (fft_spec K (load input (i * 256) 256) (load SWIFFT_sign0 0 256) 32) 32"
      using x by (simp add: load_block store_whole length_hash[OF assms(1,2)])
  next
    fix i and x :: "int16 list"
    show "length (fftsum_spec K (load (SWIFFT_PI_key K) 0 2048)
          (fft_spec K (load input (i * 256) 256) (load SWIFFT_sign0 0 256) 32) 32) = 64"
      by (rule length_hash[OF assms(1,2)])
  }
qed





subsection \<open>The strides of the batched FFT phases\<close>

lemma load_store_prefix:
  "p \<le> length mem \<Longrightarrow> k \<le> length xs \<Longrightarrow> load (store mem p xs) p k = take k xs"
  by (simp add: load_def store_def)

lemma fold_store_blocks:
  fixes mem0 :: "'a list"
  assumes step: "\<And>i mem. i < n \<Longrightarrow> length mem = length mem0 \<Longrightarrow> f i mem = store mem (i * B) (X i)"
    and fits: "\<And>i. i < n \<Longrightarrow> i * B + length (X i) \<le> length mem0"
    and k: "k \<le> B" "\<And>i. i < n \<Longrightarrow> k \<le> length (X i)"
    and i: "i < n"
  shows "load (fold f [0..<n] mem0) (i * B) k = take k (X i)"
proof -
  have "n' \<le> n \<Longrightarrow> length (fold f [0..<n'] mem0) = length mem0 \<and>
      (\<forall>i<n'. load (fold f [0..<n'] mem0) (i * B) k = take k (X i))" for n'
  proof (induction n')
    case 0
    show ?case by simp
  next
    case (Suc n')
    let ?R = "fold f [0..<n'] mem0"
    have n': "n' < n" using Suc.prems by simp
    have IH: "length ?R = length mem0" "\<forall>i<n'. load ?R (i * B) k = take k (X i)"
      using Suc.IH n' by simp_all
    have R: "fold f [0..<Suc n'] mem0 = store ?R (n' * B) (X n')"
      using step[OF n' IH(1)] by simp
    have p: "n' * B + length (X n') \<le> length ?R"
      using fits[OF n'] IH(1) by simp
    have "length (store ?R (n' * B) (X n')) = length mem0"
      using p IH(1) by (simp add: length_store)
    moreover have "load (store ?R (n' * B) (X n')) (i * B) k = take k (X i)" if "i < Suc n'" for i
    proof (cases "i = n'")
      case True
      then show ?thesis
        using p k(2)[OF n'] by (simp add: load_store_prefix)
    next
      case False
      then have lt: "i < n'" using that by simp
      have "i * B + k \<le> n' * B"
        using chunk_le[OF lt, of B] k(1) by simp
      then have "load (store ?R (n' * B) (X n')) (i * B) k = load ?R (i * B) k"
        using p by (intro load_store_before) simp_all
      then show ?thesis
        using IH(2) lt by simp
    qed
    ultimately show ?case
      unfolding R by blast
  qed
  from this[of n] i show ?thesis by simp
qed

lemma fftMultiple_block:
  assumes "i < nat nblocks"
    and "(nat nblocks - 1) * 256 + 8 * nat m \<le> length input"
    and "(nat nblocks - 1) * 256 + 8 * nat m \<le> length sign"
    and "(nat nblocks - 1) * (SWIFFT_N * SWIFFT_M) + 64 * nat m \<le> length fftout"
    and fit: "strides_fit nblocks (SWIFFT_N * SWIFFT_M)"
  shows "\<exists>R. SWIFFT_fftMultiple K junk nblocks input sign m fftout = Some R \<and>
      load R (i * SWIFFT_N * SWIFFT_M)
        (min (64 * (nat m div SWIFFT_O K * SWIFFT_O K)) (SWIFFT_N * SWIFFT_M))
       = take (min (64 * (nat m div SWIFFT_O K * SWIFFT_O K)) (SWIFFT_N * SWIFFT_M))
           (fft_spec K (load input (i * SWIFFT_INPUT_BLOCK_SIZE) (8 * nat m))
                       (load sign (i * SWIFFT_INPUT_BLOCK_SIZE) (8 * nat m)) (nat m))"
proof -
  let ?L = "64 * (nat m div SWIFFT_O K * SWIFFT_O K)"
  let ?X = "\<lambda>i. fft_spec K (load input (i * 256) (8 * nat m)) (load sign (i * 256) (8 * nat m)) (nat m)"
  have lX: "length (?X i) = ?L" for i
    by (rule length_fft_spec)
  have L: "?L \<le> 64 * nat m"
    by simp
  have NM: "SWIFFT_N * SWIFFT_M = 2048"
    by (simp add: SWIFFT_N_def SWIFFT_M_def)
  have le: "j * c \<le> (nat nblocks - 1) * c" if "j < nat nblocks" for j c
    using that by (intro mult_le_mono1) simp
  have "load (fold (\<lambda>i mem. SWIFFT_fft K junk input (i * 256) sign (i * 256) m mem (i * 2048))
                [0..<nat nblocks] fftout) (i * 2048) (min ?L 2048)
      = take (min ?L 2048) (?X i)"
  proof (rule fold_store_blocks[where X = ?X, OF _ _ _ _ assms(1)])
    fix j and mem :: "int16 list" assume j: "j < nat nblocks" and l: "length mem = length fftout"
    have "j * 256 + 8 * nat m \<le> length input" "j * 256 + 8 * nat m \<le> length sign"
      "j * 2048 \<le> length mem"
      using le[OF j, of 256] le[OF j, of 2048] assms(2,3,4) l NM by simp_all
    then show "SWIFFT_fft K junk input (j * 256) sign (j * 256) m mem (j * 2048)
        = store mem (j * 2048) (?X j)"
      by (intro SWIFFT_fft_any)
  next
    fix j assume j: "j < nat nblocks"
    have "j * 2048 \<le> (nat nblocks - 1) * 2048"
      by (rule le[OF j])
    moreover have "length (?X j) \<le> 64 * nat m"
      unfolding lX by (rule L)
    ultimately show "j * 2048 + length (?X j) \<le> length fftout"
      using assms(4) unfolding NM by linarith
  qed (simp_all add: lX)
  then show ?thesis
    by (simp add: SWIFFT_fftMultiple_fold[OF fit] batch_offsets NM)
qed

lemma fftsumMultiple_block:
  assumes "iset_ok K" "i < nat nblocks"
    and "64 * nat m \<le> length ikey"
    and "(nat nblocks - 1) * (SWIFFT_N * SWIFFT_M) + 64 * nat m \<le> length ifftout"
    and "nat nblocks * 64 \<le> length iout"
    and fit: "strides_fit nblocks (SWIFFT_N * SWIFFT_M)"
  shows "\<exists>R. SWIFFT_fftsumMultiple K nblocks ikey ifftout m iout = Some R \<and>
      load R (i * 64) 64
       = fftsum_spec K (load ikey 0 (64 * nat m))
           (load ifftout (i * SWIFFT_N * SWIFFT_M) (64 * nat m)) (nat m)"
proof -
  let ?Y = "\<lambda>i. fftsum_spec K (load ikey 0 (64 * nat m)) (load ifftout (i * 2048) (64 * nat m)) (nat m)"
  have NM: "SWIFFT_N * SWIFFT_M = 2048"
    by (simp add: SWIFFT_N_def SWIFFT_M_def)
  have le: "j * c \<le> (nat nblocks - 1) * c" if "j < nat nblocks" for j c
    using that by (intro mult_le_mono1) simp
  have inb: "j * 2048 + 64 * nat m \<le> length ifftout" if "j < nat nblocks" for j
    using le[OF that, of 2048] assms(4) NM by simp
  have lY: "length (?Y j) = 64" if "j < nat nblocks" for j
    using assms(3) inb[OF that]
    by (intro length_fftsum_spec[OF assms(1)]) (simp_all add: length_load)
  have "load (fold (\<lambda>i mem. SWIFFT_fftsum K ikey 0 ifftout (i * 2048) m mem (i * 64))
                [0..<nat nblocks] iout) (i * 64) 64
      = take 64 (?Y i)"
  proof (rule fold_store_blocks[where X = ?Y, OF _ _ _ _ assms(2)])
    fix j and mem :: "int16 list" assume j: "j < nat nblocks" and l: "length mem = length iout"
    have "j * 64 + 64 \<le> length mem"
      using chunk_le[OF j, of 64] assms(5) l by simp
    then show "SWIFFT_fftsum K ikey 0 ifftout (j * 2048) m mem (j * 64) = store mem (j * 64) (?Y j)"
      using assms(3) inb[OF j] by (intro SWIFFT_fftsum_any[OF assms(1)]) simp_all
  next
    fix j assume j: "j < nat nblocks"
    show "j * 64 + length (?Y j) \<le> length iout"
      using chunk_le[OF j, of 64] assms(5) by (simp add: lY[OF j])
  qed (simp_all add: lY)
  then show ?thesis
    using lY[OF assms(2)] by (simp add: SWIFFT_fftsumMultiple_fold[OF fit] batch_offsets NM)
qed

subsection \<open>Canonical blocks\<close>

lemma canonical_map:
  "length xs = 64 \<Longrightarrow> canonical_block K (map (\<lambda>x. SWIFFT_modP K (f x)) xs)"
  by (auto simp: canonical_block_def OUTPUT_BLOCK_ELEMS_64)

lemma canonical_map2:
  "length xs = 64 \<Longrightarrow> length ys = 64 \<Longrightarrow>
   canonical_block K (map2 (\<lambda>x y. SWIFFT_modP K (F x y)) xs ys)"
  by (auto simp: canonical_block_def OUTPUT_BLOCK_ELEMS_64)

lemma canonical_replicate: "canonical_block K (replicate 64 (SWIFFT_modP K c))"
  by (auto simp: canonical_block_def OUTPUT_BLOCK_ELEMS_64)

lemma canonical_fftsum_spec:
  "length (fftsum_spec K key fft m) = 64 \<Longrightarrow> canonical_block K (fftsum_spec K key fft m)"
  by (auto simp: canonical_block_def OUTPUT_BLOCK_ELEMS_64 fftsum_spec_def modP_def)

lemma canonical_at:
  assumes "R = store outp p new" "canonical_block K new" "p + 64 \<le> length outp"
  shows "canonical_block K (load R p 64)"
proof -
  have "length new = 64"
    using assms(2) by (simp add: canonical_block_def OUTPUT_BLOCK_ELEMS_64)
  then have "load R p 64 = new"
    using load_store_same[of p outp new] assms(1,3) by simp
  then show ?thesis using assms(2) by simp
qed

lemma canonical_alone:
  assumes "R = store x 0 new" "canonical_block K new" "length x = 64"
  shows "canonical_block K R"
proof -
  have "length new = length x"
    using assms(2,3) by (simp add: canonical_block_def OUTPUT_BLOCK_ELEMS_64)
  then have "R = new"
    using assms(1) by (simp add: store_whole)
  then show ?thesis using assms(2) by simp
qed

lemma block_of_blockwise:
  assumes "i < n" "\<forall>j<n. length (f j) = B"
  shows "block_of B (blockwise n B f mem) i = f i"
proof -
  have split: "[0..<n] = [0..<i] @ i # [Suc i..<n]"
    using assms(1) by (metis le_add1 less_imp_add_positive upt_add_eq_append upt_conv_Cons zero_le
        add.commute add_0 less_or_eq_imp_le)
  have li: "length (concat (map f [0..<i])) = i * B"
    using assms by (intro length_concat_chunks) simp
  have "blockwise n B f mem = concat (map f [0..<i]) @ f i @ (concat (map f [Suc i..<n]) @ drop (n * B) mem)"
    unfolding blockwise_def by (subst split) simp
  then show ?thesis
    using li assms by (simp add: block_of_def load_def)
qed

lemma canonical_batch:
  assumes "r = Some (blockwise n 64 f mem)" "\<forall>j<n. canonical_block K (f j)" "i < n"
  shows "\<exists>R. r = Some R \<and> canonical_block K (block_of 64 R i)"
proof -
  have "\<forall>j<n. length (f j) = 64"
    using assms(2) by (simp add: canonical_block_def OUTPUT_BLOCK_ELEMS_64)
  from block_of_blockwise[OF assms(3) this] show ?thesis
    using assms by simp
qed

lemma length_block:
  "i < n \<Longrightarrow> n * B \<le> length mem \<Longrightarrow> length (block_of B mem i) = B"
  using chunk_le[of i n B] by (intro length_slice) simp

lemma Set_copies:
  assumes "pout + 64 \<le> length output" "popd + 64 \<le> length h"
  shows "load (SWIFFT_Set output pout h popd) pout 64 = load h popd 64"
proof -
  have "length (load h popd 64) = 64"
    using assms(2) by (rule length_load)
  then show ?thesis
    using load_store_same[of pout "output" "load h popd 64"] assms(1)
    by (simp add: SWIFFT_Set_def OUTPUT_BLOCK_ELEMS_64)
qed

lemma SetMultiple_copies:
  assumes "nat nblocks * 64 \<le> length output" "nat nblocks * 64 \<le> length h" "i < nat nblocks"
    and "strides_fit nblocks SWIFFT_OUTPUT_BLOCK_SIZE"
  shows "\<exists>R. SWIFFT_SetMultiple nblocks output h = Some R \<and> block_of 64 R i = block_of 64 h i"
proof -
  have alone: "SWIFFT_Set (block_of 64 output j) 0 (block_of 64 h j) 0 = block_of 64 h j"
    if "j < nat nblocks" for j
  proof -
    have "length (block_of 64 output j) = 64" "length (block_of 64 h j) = 64"
      using that assms(1,2) by (simp_all add: length_block)
    then show ?thesis
      by (simp add: SWIFFT_Set_def OUTPUT_BLOCK_ELEMS_64 load_whole store_whole)
  qed
  have "\<forall>j<nat nblocks. length (SWIFFT_Set (block_of 64 output j) 0 (block_of 64 h j) 0) = 64"
    using assms(2) by (simp add: alone length_block)
  from block_of_blockwise[OF assms(3) this] show ?thesis
    unfolding SWIFFT_SetMultiple_eq[OF assms(1,2,4)] using assms(3) by (simp add: alone)
qed

lemma canon_Add:
  assumes "iset_ok K" "pout + 64 \<le> length output" "popd + 64 \<le> length operand"
  shows "canonical_block K (load (SWIFFT_Add K output pout operand popd) pout 64)"
  using assms
  by (intro canonical_at[OF SWIFFT_Add_eq[unfolded OUTPUT_BLOCK_ELEMS_64] canonical_map2])
     (simp_all add: length_load)

lemma canon_Add_alone:
  assumes "iset_ok K" "length x = 64" "length y = 64"
  shows "canonical_block K (SWIFFT_Add K x 0 y 0)"
  using assms
  by (intro canonical_alone[OF SWIFFT_Add_eq[unfolded OUTPUT_BLOCK_ELEMS_64] canonical_map2])
     (simp_all add: length_load)

lemma canon_AddMultiple:
  assumes "iset_ok K" "nat nblocks * 64 \<le> length output" "nat nblocks * 64 \<le> length operand"
    and "i < nat nblocks"
    and "strides_fit nblocks SWIFFT_OUTPUT_BLOCK_SIZE"
  shows "\<exists>R. SWIFFT_AddMultiple K nblocks output operand = Some R \<and> canonical_block K (block_of 64 R i)"
  using assms
  by (intro canonical_batch[OF SWIFFT_AddMultiple_eq] allI impI canon_Add_alone length_block)

lemma canon_Sub:
  assumes "iset_ok K" "pout + 64 \<le> length output" "popd + 64 \<le> length operand"
  shows "canonical_block K (load (SWIFFT_Sub K output pout operand popd) pout 64)"
  using assms
  by (intro canonical_at[OF SWIFFT_Sub_eq[unfolded OUTPUT_BLOCK_ELEMS_64] canonical_map2])
     (simp_all add: length_load)

lemma canon_Sub_alone:
  assumes "iset_ok K" "length x = 64" "length y = 64"
  shows "canonical_block K (SWIFFT_Sub K x 0 y 0)"
  using assms
  by (intro canonical_alone[OF SWIFFT_Sub_eq[unfolded OUTPUT_BLOCK_ELEMS_64] canonical_map2])
     (simp_all add: length_load)

lemma canon_SubMultiple:
  assumes "iset_ok K" "nat nblocks * 64 \<le> length output" "nat nblocks * 64 \<le> length operand"
    and "i < nat nblocks"
    and "strides_fit nblocks SWIFFT_OUTPUT_BLOCK_SIZE"
  shows "\<exists>R. SWIFFT_SubMultiple K nblocks output operand = Some R \<and> canonical_block K (block_of 64 R i)"
  using assms
  by (intro canonical_batch[OF SWIFFT_SubMultiple_eq] allI impI canon_Sub_alone length_block)

lemma canon_Mul:
  assumes "iset_ok K" "pout + 64 \<le> length output" "popd + 64 \<le> length operand"
  shows "canonical_block K (load (SWIFFT_Mul K output pout operand popd) pout 64)"
  using assms
  by (intro canonical_at[OF SWIFFT_Mul_eq[unfolded OUTPUT_BLOCK_ELEMS_64] canonical_map2])
     (simp_all add: length_load)

lemma canon_Mul_alone:
  assumes "iset_ok K" "length x = 64" "length y = 64"
  shows "canonical_block K (SWIFFT_Mul K x 0 y 0)"
  using assms
  by (intro canonical_alone[OF SWIFFT_Mul_eq[unfolded OUTPUT_BLOCK_ELEMS_64] canonical_map2])
     (simp_all add: length_load)

lemma canon_MulMultiple:
  assumes "iset_ok K" "nat nblocks * 64 \<le> length output" "nat nblocks * 64 \<le> length operand"
    and "i < nat nblocks"
    and "strides_fit nblocks SWIFFT_OUTPUT_BLOCK_SIZE"
  shows "\<exists>R. SWIFFT_MulMultiple K nblocks output operand = Some R \<and> canonical_block K (block_of 64 R i)"
  using assms
  by (intro canonical_batch[OF SWIFFT_MulMultiple_eq] allI impI canon_Mul_alone length_block)

lemma canon_ConstAdd:
  assumes "iset_ok K" "pout + 64 \<le> length output"
  shows "canonical_block K (load (SWIFFT_ConstAdd K output pout c) pout 64)"
  using assms
  by (intro canonical_at[OF SWIFFT_ConstAdd_eq[unfolded OUTPUT_BLOCK_ELEMS_64] canonical_map])
     (simp_all add: length_load)

lemma canon_ConstAdd_alone:
  assumes "iset_ok K" "length x = 64"
  shows "canonical_block K (SWIFFT_ConstAdd K x 0 c)"
  using assms
  by (intro canonical_alone[OF SWIFFT_ConstAdd_eq[unfolded OUTPUT_BLOCK_ELEMS_64] canonical_map])
     (simp_all add: length_load)

lemma canon_ConstAddMultiple:
  assumes "iset_ok K" "nat nblocks * 64 \<le> length output" "i < nat nblocks"
    and "strides_fit nblocks SWIFFT_OUTPUT_BLOCK_SIZE"
  shows "\<exists>R. SWIFFT_ConstAddMultiple K nblocks output cs = Some R \<and> canonical_block K (block_of 64 R i)"
  using assms
  by (intro canonical_batch[OF SWIFFT_ConstAddMultiple_eq] allI impI canon_ConstAdd_alone length_block)

lemma canon_ConstSub:
  assumes "iset_ok K" "pout + 64 \<le> length output"
  shows "canonical_block K (load (SWIFFT_ConstSub K output pout c) pout 64)"
  using assms
  by (intro canonical_at[OF SWIFFT_ConstSub_eq[unfolded OUTPUT_BLOCK_ELEMS_64] canonical_map])
     (simp_all add: length_load)

lemma canon_ConstSub_alone:
  assumes "iset_ok K" "length x = 64"
  shows "canonical_block K (SWIFFT_ConstSub K x 0 c)"
  using assms
  by (intro canonical_alone[OF SWIFFT_ConstSub_eq[unfolded OUTPUT_BLOCK_ELEMS_64] canonical_map])
     (simp_all add: length_load)

lemma canon_ConstSubMultiple:
  assumes "iset_ok K" "nat nblocks * 64 \<le> length output" "i < nat nblocks"
    and "strides_fit nblocks SWIFFT_OUTPUT_BLOCK_SIZE"
  shows "\<exists>R. SWIFFT_ConstSubMultiple K nblocks output cs = Some R \<and> canonical_block K (block_of 64 R i)"
  using assms
  by (intro canonical_batch[OF SWIFFT_ConstSubMultiple_eq] allI impI canon_ConstSub_alone length_block)

lemma canon_ConstMul:
  assumes "iset_ok K" "pout + 64 \<le> length output"
  shows "canonical_block K (load (SWIFFT_ConstMul K output pout c) pout 64)"
  using assms
  by (intro canonical_at[OF SWIFFT_ConstMul_eq[unfolded OUTPUT_BLOCK_ELEMS_64] canonical_map])
     (simp_all add: length_load)

lemma canon_ConstMul_alone:
  assumes "iset_ok K" "length x = 64"
  shows "canonical_block K (SWIFFT_ConstMul K x 0 c)"
  using assms
  by (intro canonical_alone[OF SWIFFT_ConstMul_eq[unfolded OUTPUT_BLOCK_ELEMS_64] canonical_map])
     (simp_all add: length_load)

lemma canon_ConstMulMultiple:
  assumes "iset_ok K" "nat nblocks * 64 \<le> length output" "i < nat nblocks"
    and "strides_fit nblocks SWIFFT_OUTPUT_BLOCK_SIZE"
  shows "\<exists>R. SWIFFT_ConstMulMultiple K nblocks output cs = Some R \<and> canonical_block K (block_of 64 R i)"
  using assms
  by (intro canonical_batch[OF SWIFFT_ConstMulMultiple_eq] allI impI canon_ConstMul_alone length_block)

lemma canon_ConstSet:
  assumes "iset_ok K" "pout + 64 \<le> length output"
  shows "canonical_block K (load (SWIFFT_ConstSet K output pout c) pout 64)"
  using assms
  by (intro canonical_at[OF SWIFFT_ConstSet_eq[unfolded OUTPUT_BLOCK_ELEMS_64] canonical_replicate])
     (simp_all add: length_load)

lemma canon_ConstSet_alone:
  assumes "iset_ok K" "length x = 64"
  shows "canonical_block K (SWIFFT_ConstSet K x 0 c)"
  using assms
  by (intro canonical_alone[OF SWIFFT_ConstSet_eq[unfolded OUTPUT_BLOCK_ELEMS_64] canonical_replicate])
     (simp_all add: length_load)

lemma canon_ConstSetMultiple:
  assumes "iset_ok K" "nat nblocks * 64 \<le> length output" "i < nat nblocks"
    and "strides_fit nblocks SWIFFT_OUTPUT_BLOCK_SIZE"
  shows "\<exists>R. SWIFFT_ConstSetMultiple K nblocks output cs = Some R \<and> canonical_block K (block_of 64 R i)"
  using assms
  by (intro canonical_batch[OF SWIFFT_ConstSetMultiple_eq] allI impI canon_ConstSet_alone length_block)

lemma canon_compute:
  assumes "iset_ok K" "2048 \<le> length (SWIFFT_PI_key K)"
    and "pin + 256 \<le> length input" "psg + 256 \<le> length sign" "pout + 64 \<le> length output"
  shows "canonical_block K (load (SWIFFT_compute K junk input pin sign psg output pout) pout 64)"
  using assms
  by (intro canonical_at[OF SWIFFT_compute_eq canonical_fftsum_spec] length_hash)

lemma canon_compute_alone:
  assumes "iset_ok K" "2048 \<le> length (SWIFFT_PI_key K)"
    and "256 \<le> length input" "256 \<le> length sign" "length x = 64"
  shows "canonical_block K (SWIFFT_compute K junk input 0 sign 0 x 0)"
  using assms
  by (intro canonical_alone[OF SWIFFT_compute_eq canonical_fftsum_spec] length_hash) simp_all

lemma canon_ComputeMultipleSigned:
  assumes "iset_ok K" "2048 \<le> length (SWIFFT_PI_key K)"
    and "nat nblocks * 256 \<le> length input" "nat nblocks * 256 \<le> length sign"
    and "nat nblocks * 64 \<le> length output" "i < nat nblocks"
    and "strides_fit nblocks SWIFFT_INPUT_BLOCK_SIZE"
  shows "\<exists>R. SWIFFT_ComputeMultipleSigned K junk nblocks input sign output = Some R \<and> canonical_block K (block_of 64 R i)"
proof -
  have "canonical_block K (SWIFFT_ComputeSigned K junk (block_of 256 input j) 0 (block_of 256 sign j) 0
      (block_of 64 output j) 0)" if "j < nat nblocks" for j
    unfolding SWIFFT_ComputeSigned_def using that assms(1-5)
    by (intro canon_compute_alone) (simp_all add: length_block)
  then show ?thesis
    using assms
    by (intro canonical_batch[OF SWIFFT_ComputeMultipleSigned_eq[where junk' = "\<lambda>i. junk"]]) simp_all
qed

lemma canon_ComputeMultiple:
  assumes "iset_ok K" "2048 \<le> length (SWIFFT_PI_key K)"
    and "nat nblocks * 256 \<le> length input"
    and "nat nblocks * 64 \<le> length output" "i < nat nblocks"
    and "strides_fit nblocks SWIFFT_INPUT_BLOCK_SIZE"
  shows "\<exists>R. SWIFFT_ComputeMultiple K junk nblocks input output = Some R \<and> canonical_block K (block_of 64 R i)"
proof -
  have "canonical_block K (SWIFFT_Compute K junk (block_of 256 input j) 0 (block_of 64 output j) 0)"
    if "j < nat nblocks" for j
    unfolding SWIFFT_Compute_def using that assms(1-4)
    by (intro canon_compute_alone)
       (simp_all add: length_block SWIFFT_sign0_def SWIFFT_INPUT_BLOCK_SIZE_def)
  then show ?thesis
    using assms
    by (intro canonical_batch[OF SWIFFT_ComputeMultiple_eq[where junk' = "\<lambda>i. junk"]]) simp_all
qed

subsection \<open>Constant operands and wrap-around\<close>











lemma sint_word_of_int_16:
  "- (2 ^ 15) \<le> z \<Longrightarrow> z < 2 ^ 15 \<Longrightarrow> sint (word_of_int z :: int16) = z"
  by (simp add: sint_sbintrunc' signed_take_bit_int_eq_self)




lemma sint_modP_sys:
  assumes "in_int16 lo" "in_int16 (lo + 256)"
  shows "sint (modP_sys lo x) = lo + (sint x - lo) mod SWIFFT_P"
proof -
  have "0 \<le> (sint x - lo) mod SWIFFT_P" "(sint x - lo) mod SWIFFT_P < 257"
    by (simp_all add: SWIFFT_P_def)
  then have "in_int16 (lo + (sint x - lo) mod SWIFFT_P)"
    using assms by (simp add: in_int16_def)
  then show ?thesis
    unfolding modP_sys_def in_int16_def by (intro sint_word_of_int_16) simp_all
qed

lemma range_modP_sys:
  assumes "in_int16 lo" "in_int16 (lo + 256)"
  shows "range (modP_sys lo) = {x. lo \<le> sint x \<and> sint x \<le> lo + 256}"
proof (intro set_eqI iffI)
  fix x assume "x \<in> range (modP_sys lo)"
  then obtain y where x: "x = modP_sys lo y"
    by blast
  have "0 \<le> (sint y - lo) mod SWIFFT_P" "(sint y - lo) mod SWIFFT_P < 257"
    by (simp_all add: SWIFFT_P_def)
  then show "x \<in> {x. lo \<le> sint x \<and> sint x \<le> lo + 256}"
    unfolding x by (simp add: sint_modP_sys[OF assms])
next
  fix x :: int16 assume "x \<in> {x. lo \<le> sint x \<and> sint x \<le> lo + 256}"
  then have "0 \<le> sint x - lo" "sint x - lo < SWIFFT_P"
    by (simp_all add: SWIFFT_P_def)
  then have "(sint x - lo) mod SWIFFT_P = sint x - lo"
    by simp
  then have "modP_sys lo x = x"
    by (simp add: modP_sys_def)
  then show "x \<in> range (modP_sys lo)"
    by (metis rangeI)
qed

lemma canonical_block_sys:
  assumes "SWIFFT_modP K = modP_sys lo" "in_int16 lo" "in_int16 (lo + 256)"
  shows "canonical_block K h \<longleftrightarrow>
     length h = 64 \<and> list_all (\<lambda>x. lo \<le> sint x \<and> sint x \<le> lo + 256) h"
  unfolding canonical_block_def assms(1) range_modP_sys[OF assms(2,3)] OUTPUT_BLOCK_ELEMS_64
  by (auto simp: list_all_iff)




section \<open>The claims\<close>

text \<open>
  C8. Each element-wise operation of the hash algebra walks the 64 elements of the hash
  block at \<open>pout\<close> and leaves the rest of the buffer as it was: \<^verbatim>\<open>Add\<close>, \<^verbatim>\<open>Sub\<close> and \<^verbatim>\<open>Mul\<close>
  replace element \<open>i\<close> by \<open>modP (out[i] op in[i])\<close>, with the wrapping 16-bit \<open>op\<close>;
  \<^verbatim>\<open>ConstSet\<close> stores \<open>modP c\<close> in every element; \<^verbatim>\<open>ConstAdd\<close>, \<^verbatim>\<open>ConstSub\<close> and \<^verbatim>\<open>ConstMul\<close>
  replace element \<open>i\<close> by \<open>modP (out[i] op c)\<close>; and \<^verbatim>\<open>Set\<close> copies the operand's 64 elements.
\<close>

theorem hash_algebra_elementwise:
  assumes "iset_ok K"
    and "pout + OUTPUT_BLOCK_ELEMS \<le> length output"
    and "popd + OUTPUT_BLOCK_ELEMS \<le> length operand"
  shows "OUTPUT_BLOCK_ELEMS = 64 \<and>
    SWIFFT_Add K output pout operand popd =
      store output pout (map2 (\<lambda>x y. SWIFFT_modP K (x + y))
        (load output pout OUTPUT_BLOCK_ELEMS) (load operand popd OUTPUT_BLOCK_ELEMS)) \<and>
    SWIFFT_Sub K output pout operand popd =
      store output pout (map2 (\<lambda>x y. SWIFFT_modP K (x - y))
        (load output pout OUTPUT_BLOCK_ELEMS) (load operand popd OUTPUT_BLOCK_ELEMS)) \<and>
    SWIFFT_Mul K output pout operand popd =
      store output pout (map2 (\<lambda>x y. SWIFFT_modP K (x * y))
        (load output pout OUTPUT_BLOCK_ELEMS) (load operand popd OUTPUT_BLOCK_ELEMS)) \<and>
    SWIFFT_ConstSet K output pout c =
      store output pout (replicate OUTPUT_BLOCK_ELEMS (SWIFFT_modP K c)) \<and>
    SWIFFT_ConstAdd K output pout c =
      store output pout (map (\<lambda>x. SWIFFT_modP K (x + c)) (load output pout OUTPUT_BLOCK_ELEMS)) \<and>
    SWIFFT_ConstSub K output pout c =
      store output pout (map (\<lambda>x. SWIFFT_modP K (x - c)) (load output pout OUTPUT_BLOCK_ELEMS)) \<and>
    SWIFFT_ConstMul K output pout c =
      store output pout (map (\<lambda>x. SWIFFT_modP K (x * c)) (load output pout OUTPUT_BLOCK_ELEMS)) \<and>
    SWIFFT_Set output pout operand popd =
      store output pout (load operand popd OUTPUT_BLOCK_ELEMS)"
  using OUTPUT_BLOCK_ELEMS_64
    SWIFFT_Add_eq[OF assms] SWIFFT_Sub_eq[OF assms] SWIFFT_Mul_eq[OF assms]
    SWIFFT_ConstSet_eq[OF assms(1,2), of c] SWIFFT_ConstAdd_eq[OF assms(1,2), of c]
    SWIFFT_ConstSub_eq[OF assms(1,2), of c] SWIFFT_ConstMul_eq[OF assms(1,2), of c]
  by (simp only: SWIFFT_Set_def simp_thms)

theorem hash_algebra_elementwise_witness:
  "iset_ok (sample_iset 1 0) \<and>
   0 + OUTPUT_BLOCK_ELEMS \<le> length (replicate 64 (200 :: int16)) \<and>
   0 + OUTPUT_BLOCK_ELEMS \<le> length (replicate 64 (100 :: int16)) \<and>
   SWIFFT_Add (sample_iset 1 0) (replicate 64 200) 0 (replicate 64 100) 0 = replicate 64 43 \<and>
   SWIFFT_Sub (sample_iset 1 0) (replicate 64 200) 0 (replicate 64 100) 0 = replicate 64 100 \<and>
   SWIFFT_Mul (sample_iset 1 0) (replicate 64 200) 0 (replicate 64 100) 0 = replicate 64 211 \<and>
   SWIFFT_ConstSet (sample_iset 1 0) (replicate 64 200) 0 300 = replicate 64 43 \<and>
   SWIFFT_ConstAdd (sample_iset 1 0) (replicate 64 200) 0 300 = replicate 64 243 \<and>
   SWIFFT_ConstSub (sample_iset 1 0) (replicate 64 200) 0 300 = replicate 64 157 \<and>
   SWIFFT_ConstMul (sample_iset 1 0) (replicate 64 200) 0 300 = replicate 64 118 \<and>
   SWIFFT_Set (replicate 64 200) 0 (replicate 64 100) 0 = replicate 64 100"
proof -
  have ok: "iset_ok (sample_iset 1 0)"
    by (rule sample_iset_ok) simp
  have l1: "0 + OUTPUT_BLOCK_ELEMS \<le> length (replicate 64 (200 :: int16))"
    and l2: "0 + OUTPUT_BLOCK_ELEMS \<le> length (replicate 64 (100 :: int16))"
    by (simp_all add: OUTPUT_BLOCK_ELEMS_64)
  show ?thesis
    using hash_algebra_elementwise[OF ok l1 l2, of 300] ok l1 l2
    by (simp add: OUTPUT_BLOCK_ELEMS_64 sample_modP modP_sys_0 load_def store_def zip_replicate)
qed

text \<open>
  C2. For every \<open>m \<ge> 0\<close>, \<^verbatim>\<open>SWIFFT_fftsum_\<close> writes to the 64 elements at \<open>pout\<close> what the
  reference definition computes from the \<open>64 * m\<close> elements of the key and of the FFT output:
  an accumulator of \<open>8 / O\<close> lane vectors that starts at 0, accumulates
  \<open>qReduce (safeMult (fftout[i, j], key[i, j]))\<close> for \<open>i < m\<close> and \<open>j < 8 / O\<close>, and goes through
  \<open>modP\<close> lane by lane. The rest of the output buffer is left as it was.
\<close>

theorem fftsum_refines_reference:
  assumes "iset_ok K" and "0 \<le> m"
    and "pkey + 64 * nat m \<le> length ikey"
    and "pfft + 64 * nat m \<le> length ifftout"
    and "pout + 64 \<le> length iout"
  shows "SWIFFT_fftsum K ikey pkey ifftout pfft m iout pout =
      store iout pout
        (fftsum_spec K (load ikey pkey (64 * nat m)) (load ifftout pfft (64 * nat m)) (nat m)) \<and>
    length (fftsum_spec K (load ikey pkey (64 * nat m)) (load ifftout pfft (64 * nat m)) (nat m)) = 64"
proof -
  have "SWIFFT_fftsum K ikey pkey ifftout pfft (int (nat m)) iout pout =
      store iout pout
        (fftsum_spec K (load ikey pkey (64 * nat m)) (load ifftout pfft (64 * nat m)) (nat m))"
    by (rule SWIFFT_fftsum_eq[OF assms(1,3,4,5)])
  moreover have "length (fftsum_spec K (load ikey pkey (64 * nat m))
      (load ifftout pfft (64 * nat m)) (nat m)) = 64"
    using assms(3,4) by (intro length_fftsum_spec[OF assms(1)]) (simp_all add: length_load)
  ultimately show ?thesis
    using assms(2) by simp
qed

theorem fftsum_refines_reference_witness:
  "iset_ok (sample_iset 3 0) \<and> (0::int) \<le> 2 \<and>
   0 + 64 * nat 2 \<le> length (replicate 128 (3 :: int16)) \<and>
   0 + 64 * nat 2 \<le> length (replicate 128 (5 :: int16)) \<and>
   0 + 64 \<le> length (replicate 64 (0 :: int16)) \<and>
   SWIFFT_fftsum (sample_iset 3 0) (replicate 128 3) 0 (replicate 128 5) 0 2 (replicate 64 0) 0 =
     replicate 64 30"
proof -
  have ok: "iset_ok (sample_iset 3 0)"
    by (rule sample_iset_ok) simp
  have m: "(0::int) \<le> 2" by simp
  have l1: "0 + 64 * nat 2 \<le> length (replicate 128 (3 :: int16))"
    and l2: "0 + 64 * nat 2 \<le> length (replicate 128 (5 :: int16))"
    and l3: "0 + 64 \<le> length (replicate 64 (0 :: int16))"
    by simp_all
  have "fftsum_spec (sample_iset 3 0) (load (replicate 128 3) 0 (64 * nat 2))
      (load (replicate 128 5) 0 (64 * nat 2)) (nat 2) = replicate 64 30"
    by (simp add: fftsum_spec_def fftsum_spec_acc_def lane_vector_def SWIFFT_O_def ZOvec_lanes_def
        Z1vec_lanes_def sample_iset_def load_def modP_def qReduce_def safeMult_def vadd_def
        modP_sys_0 zip_replicate upt_0_2)
  then show ?thesis
    using fftsum_refines_reference[OF ok m l1 l2 l3] ok
    by (simp add: store_def)
qed

text \<open>
  C1. For every \<open>m\<close> that is a positive multiple of \<^verbatim>\<open>SWIFFT_O\<close> and every input and sign
  buffer of \<open>8 * m\<close> bytes, \<^verbatim>\<open>SWIFFT_fft_\<close> writes to the \<open>64 * m\<close> elements at \<open>pout\<close> what the
  schedule of the specification computes, group after group: the rows loaded as
  \<open>T[sign[k], input[k]] * M[k]\<close> with row 0 skipping the multiplier, the three stages of
  \<^verbatim>\<open>AddSub\<close> with the reductions and rotations between them, the final reduction of the 8
  rows, and the rows stored side by side column by column, for \<open>m / O\<close> groups. The result
  does not depend on what the local array \<open>v\<close> held before, and the rest of the output buffer
  is left as it was.
\<close>

theorem fft_follows_schedule:
  assumes "0 < m" and "int (SWIFFT_O K) dvd m"
    and "pin + 8 * nat m \<le> length input"
    and "psg + 8 * nat m \<le> length sign"
    and "pout + 64 * nat m \<le> length fftout"
  shows "SWIFFT_fft K junk input pin sign psg m fftout pout =
      store fftout pout
        (fft_spec K (load input pin (8 * nat m)) (load sign psg (8 * nat m)) (nat m)) \<and>
    length (fft_spec K (load input pin (8 * nat m)) (load sign psg (8 * nat m)) (nat m)) = 64 * nat m"
proof -
  from assms(1,2) obtain n where n: "nat m = n * SWIFFT_O K"
    by (metis dvd_def int_dvd_int_iff mult.commute nat_0_le less_imp_le)
  have "SWIFFT_fft K junk input pin sign psg (int (n * SWIFFT_O K)) fftout pout =
     store fftout pout (fft_spec K (load input pin (8 * (n * SWIFFT_O K)))
                                   (load sign psg (8 * (n * SWIFFT_O K))) (n * SWIFFT_O K))"
    using assms(3,4,5) unfolding n by (intro SWIFFT_fft_eq) simp_all
  moreover have "length (fft_spec K (load input pin (8 * (n * SWIFFT_O K)))
      (load sign psg (8 * (n * SWIFFT_O K))) (n * SWIFFT_O K)) = 64 * (n * SWIFFT_O K)"
    by (simp add: length_fft_spec SWIFFT_O_def)
  ultimately have "SWIFFT_fft K junk input pin sign psg (int (nat m)) fftout pout =
      store fftout pout
        (fft_spec K (load input pin (8 * nat m)) (load sign psg (8 * nat m)) (nat m)) \<and>
    length (fft_spec K (load input pin (8 * nat m)) (load sign psg (8 * nat m)) (nat m)) = 64 * nat m"
    unfolding n by blast
  then show ?thesis
    using assms(1) by simp
qed

theorem fft_follows_schedule_witness:
  "(0::int) < 4 \<and> int (SWIFFT_O (sample_iset 1 0)) dvd 4 \<and>
   0 + 8 * nat 4 \<le> length (replicate 32 (3 :: BitSequence)) \<and>
   0 + 8 * nat 4 \<le> length (replicate 32 (1 :: BitSequence)) \<and>
   0 + 64 * nat 4 \<le> length (replicate 256 (0 :: int16)) \<and>
   SWIFFT_fft (sample_iset 1 0) (\<lambda>i. 0) (replicate 32 3) 0 (replicate 32 1) 0 4 (replicate 256 0) 0 =
     store (replicate 256 0) 0
       (fft_spec (sample_iset 1 0) (load (replicate 32 3) 0 (8 * nat 4))
          (load (replicate 32 1) 0 (8 * nat 4)) (nat 4)) \<and>
   length (fft_spec (sample_iset 1 0) (load (replicate 32 3) 0 (8 * nat 4))
          (load (replicate 32 1) 0 (8 * nat 4)) (nat 4)) = 64 * nat 4"
proof -
  have m: "(0::int) < 4" by simp
  have d: "int (SWIFFT_O (sample_iset 1 0)) dvd 4"
    by (simp add: SWIFFT_O_def sample_iset_def)
  have l1: "0 + 8 * nat 4 \<le> length (replicate 32 (3 :: BitSequence))"
    and l2: "0 + 8 * nat 4 \<le> length (replicate 32 (1 :: BitSequence))"
    and l3: "0 + 64 * nat 4 \<le> length (replicate 256 (0 :: int16))"
    by simp_all
  from fft_follows_schedule[OF m d l1 l2 l3, of "\<lambda>i. 0"] m d l1 l2 l3
  show ?thesis by blast
qed

text \<open>
  C3. For every input block and sign block of 256 bytes, \<^verbatim>\<open>ComputeSigned\<close> writes to the 64
  elements (128 bytes) of the output block exactly the result of the FFT-sum phase, with the
  fixed key \<^verbatim>\<open>SWIFFT_PI_key\<close> and \<open>m = 32\<close>, applied to the result of the FFT phase on the input
  and the sign block with \<open>m = 32\<close>. The scratch buffer has exactly \<open>64 * 32\<close> elements, and
  what it held before the call does not show in the result.
\<close>

theorem ComputeSigned_is_fftsum_of_fft:
  assumes "iset_ok K" and "64 * 32 \<le> length (SWIFFT_PI_key K)"
    and "pin + 256 \<le> length input"
    and "psg + 256 \<le> length sign"
    and "pout + 64 \<le> length output"
  shows "SWIFFT_ComputeSigned K junk input pin sign psg output pout =
      store output pout (fftsum_spec K (load (SWIFFT_PI_key K) 0 (64 * 32))
        (fft_spec K (load input pin 256) (load sign psg 256) 32) 32) \<and>
    load (SWIFFT_ComputeSigned K junk input pin sign psg output pout) pout 64 =
      fftsum_spec K (load (SWIFFT_PI_key K) 0 (64 * 32))
        (fft_spec K (load input pin 256) (load sign psg 256) 32) 32 \<and>
    length (uninit junk (SWIFFT_N * SWIFFT_M)) = 64 * 32 \<and> SWIFFT_M = 32"
proof -
  let ?F = "fft_spec K (load input pin 256) (load sign psg 256) 32"
  let ?H = "fftsum_spec K (load (SWIFFT_PI_key K) 0 (64 * 32)) ?F 32"
  obtain n where n: "SWIFFT_M = n * SWIFFT_O K"
    using assms(1) by (rule O_divides_M)
  have "length ?F = 64 * (n * SWIFFT_O K)"
    using length_fft_spec_groups[of K "load input pin 256" "load sign psg 256" n] n
    by (simp add: SWIFFT_M_def)
  then have "length ?H = 64"
    using assms(2) n by (intro length_fftsum_spec[OF assms(1)]) (simp_all add: length_load SWIFFT_M_def)
  moreover have eq: "SWIFFT_ComputeSigned K junk input pin sign psg output pout = store output pout ?H"
    using SWIFFT_compute_eq[OF assms(1) _ assms(3,4,5), of junk] assms(2)
    by (simp add: SWIFFT_ComputeSigned_def)
  ultimately have "load (SWIFFT_ComputeSigned K junk input pin sign psg output pout) pout 64 = ?H"
    using load_store_same[of pout "output" ?H] assms(5) by simp
  with eq show ?thesis
    by (simp add: uninit_def SWIFFT_N_def SWIFFT_M_def)
qed

theorem ComputeSigned_is_fftsum_of_fft_witness:
  "iset_ok (sample_iset 1 0) \<and> 64 * 32 \<le> length (SWIFFT_PI_key (sample_iset 1 0)) \<and>
   0 + 256 \<le> length (replicate 256 (5 :: BitSequence)) \<and>
   0 + 256 \<le> length (replicate 256 (1 :: BitSequence)) \<and>
   0 + 64 \<le> length (replicate 64 (0 :: int16)) \<and>
   SWIFFT_ComputeSigned (sample_iset 1 0) (\<lambda>i. 7) (replicate 256 5) 0 (replicate 256 1) 0
       (replicate 64 0) 0 =
     store (replicate 64 0) 0 (fftsum_spec (sample_iset 1 0)
        (load (SWIFFT_PI_key (sample_iset 1 0)) 0 (64 * 32))
        (fft_spec (sample_iset 1 0) (load (replicate 256 5) 0 256) (load (replicate 256 1) 0 256) 32) 32) \<and>
   length (uninit (\<lambda>i. 7 :: int16) (SWIFFT_N * SWIFFT_M)) = 64 * 32"
proof -
  have ok: "iset_ok (sample_iset 1 0)"
    by (rule sample_iset_ok) simp
  have key: "64 * 32 \<le> length (SWIFFT_PI_key (sample_iset 1 0))"
    by (simp add: sample_key)
  have l1: "0 + 256 \<le> length (replicate 256 (5 :: BitSequence))"
    and l2: "0 + 256 \<le> length (replicate 256 (1 :: BitSequence))"
    and l3: "0 + 64 \<le> length (replicate 64 (0 :: int16))"
    by simp_all
  from ComputeSigned_is_fftsum_of_fft[OF ok key l1 l2 l3, of "\<lambda>i. 7"] ok key l1 l2 l3
  show ?thesis by blast
qed

text \<open>
  C4. For every input block of 256 bytes, \<^verbatim>\<open>Compute\<close> and \<^verbatim>\<open>ComputeSigned\<close> on the sign block
  \<^verbatim>\<open>SWIFFT_sign0\<close>, which is all zeros, give the same output, whatever the two calls find in
  their uninitialised scratch.
\<close>

theorem Compute_is_ComputeSigned_sign0:
  assumes "iset_ok K" and "64 * 32 \<le> length (SWIFFT_PI_key K)"
    and "pin + 256 \<le> length input"
    and "pout + 64 \<le> length output"
  shows "SWIFFT_Compute K junk input pin output pout =
      SWIFFT_ComputeSigned K junk' input pin SWIFFT_sign0 0 output pout \<and>
    SWIFFT_sign0 = replicate 256 0"
proof -
  have s0: "0 + 256 \<le> length SWIFFT_sign0"
    by (simp add: SWIFFT_sign0_def SWIFFT_INPUT_BLOCK_SIZE_def)
  have key: "2048 \<le> length (SWIFFT_PI_key K)"
    using assms(2) by simp
  have "SWIFFT_compute K junk input pin SWIFFT_sign0 0 output pout =
      SWIFFT_compute K junk' input pin SWIFFT_sign0 0 output pout"
    unfolding SWIFFT_compute_eq[OF assms(1) key assms(3) s0 assms(4)] ..
  then show ?thesis
    by (simp add: SWIFFT_Compute_def SWIFFT_ComputeSigned_def SWIFFT_sign0_def
        SWIFFT_INPUT_BLOCK_SIZE_def)
qed

theorem Compute_is_ComputeSigned_sign0_witness:
  "iset_ok (sample_iset 2 0) \<and> 64 * 32 \<le> length (SWIFFT_PI_key (sample_iset 2 0)) \<and>
   0 + 256 \<le> length (replicate 256 (9 :: BitSequence)) \<and>
   0 + 64 \<le> length (replicate 64 (0 :: int16)) \<and>
   SWIFFT_Compute (sample_iset 2 0) (\<lambda>i. 1) (replicate 256 9) 0 (replicate 64 0) 0 =
     SWIFFT_ComputeSigned (sample_iset 2 0) (\<lambda>i. 2) (replicate 256 9) 0 SWIFFT_sign0 0
       (replicate 64 0) 0"
proof -
  have ok: "iset_ok (sample_iset 2 0)"
    by (rule sample_iset_ok) simp
  have key: "64 * 32 \<le> length (SWIFFT_PI_key (sample_iset 2 0))"
    by (simp add: sample_key)
  have l1: "0 + 256 \<le> length (replicate 256 (9 :: BitSequence))"
    and l3: "0 + 64 \<le> length (replicate 64 (0 :: int16))"
    by simp_all
  from Compute_is_ComputeSigned_sign0[OF ok key l1 l3, of "\<lambda>i. 1" "\<lambda>i. 2"] ok key l1 l3
  show ?thesis by blast
qed




text \<open>
  C10. For every \<open>nblocks\<close> whose offsets \<open>i * SWIFFT_N * SWIFFT_M\<close> the code can compute in
  \<^verbatim>\<open>int\<close>, and every \<open>m\<close>, \<^verbatim>\<open>SWIFFT_fftMultiple_\<close> returns and leaves the FFT output of block
  \<open>i\<close>, computed from the \<open>8 * m\<close> bytes at \<open>i * SWIFFT_INPUT_BLOCK_SIZE\<close>, at the offset
  \<open>i * SWIFFT_N * SWIFFT_M\<close> of its output array, and \<^verbatim>\<open>SWIFFT_fftsumMultiple_\<close> computes
  hash block \<open>i\<close> from the \<open>64 * m\<close> elements at that same offset: the stride is \<open>N * M = 2048\<close>
  elements whatever \<open>m\<close> is, not \<open>N * m\<close>. The FFT output of a block is the \<open>64 * O\<close> elements
  of each of its \<open>m div O\<close> groups, which is \<open>64 * m\<close> elements when \<open>m\<close> is a multiple of \<open>O\<close>
  and nothing when \<open>m \<le> 0\<close>; when it exceeds the stride, the next block overwrites the
  excess, so that its first \<open>N * M\<close> elements are left.
\<close>

theorem batched_fft_stride_is_N_M:
  assumes "iset_ok K" and "i < nat nblocks"
    and "strides_fit nblocks (SWIFFT_N * SWIFFT_M)"
    and "(nat nblocks - 1) * SWIFFT_INPUT_BLOCK_SIZE + 8 * nat m \<le> length input"
    and "(nat nblocks - 1) * SWIFFT_INPUT_BLOCK_SIZE + 8 * nat m \<le> length sign"
    and "(nat nblocks - 1) * (SWIFFT_N * SWIFFT_M) + 64 * nat m \<le> length fftout"
    and "64 * nat ms \<le> length ikey"
    and "(nat nblocks - 1) * (SWIFFT_N * SWIFFT_M) + 64 * nat ms \<le> length ifftout"
    and "nat nblocks * 64 \<le> length iout"
  shows "(\<exists>R. SWIFFT_fftMultiple K junk nblocks input sign m fftout = Some R \<and>
        load R (i * SWIFFT_N * SWIFFT_M)
          (min (64 * (nat m div SWIFFT_O K * SWIFFT_O K)) (SWIFFT_N * SWIFFT_M))
        = take (min (64 * (nat m div SWIFFT_O K * SWIFFT_O K)) (SWIFFT_N * SWIFFT_M))
            (fft_spec K (load input (i * SWIFFT_INPUT_BLOCK_SIZE) (8 * nat m))
                        (load sign (i * SWIFFT_INPUT_BLOCK_SIZE) (8 * nat m)) (nat m))) \<and>
     (\<exists>R. SWIFFT_fftsumMultiple K nblocks ikey ifftout ms iout = Some R \<and>
        load R (i * 64) 64
        = fftsum_spec K (load ikey 0 (64 * nat ms))
            (load ifftout (i * SWIFFT_N * SWIFFT_M) (64 * nat ms)) (nat ms)) \<and>
     SWIFFT_N * SWIFFT_M = 2048"
proof -
  have I: "SWIFFT_INPUT_BLOCK_SIZE = 256"
    by (simp add: SWIFFT_INPUT_BLOCK_SIZE_def)
  note fftMultiple_block[OF assms(2) assms(4,5)[unfolded I] assms(6,3), where K = K and junk = junk]
  moreover note fftsumMultiple_block[OF assms(1,2,7,8,9,3)]
  moreover have "SWIFFT_N * SWIFFT_M = 2048"
    by (simp add: SWIFFT_N_def SWIFFT_M_def)
  ultimately show ?thesis
    by (simp only: simp_thms)
qed

theorem batched_fft_stride_is_N_M_witness:
  "iset_ok (sample_iset 1 0) \<and> (1::nat) < nat 2 \<and>
   strides_fit 2 (SWIFFT_N * SWIFFT_M) \<and>
   (nat 2 - 1) * SWIFFT_INPUT_BLOCK_SIZE + 8 * nat 3 \<le> length (replicate 512 (3 :: BitSequence)) \<and>
   (nat 2 - 1) * SWIFFT_INPUT_BLOCK_SIZE + 8 * nat 3 \<le> length (replicate 512 (1 :: BitSequence)) \<and>
   (nat 2 - 1) * (SWIFFT_N * SWIFFT_M) + 64 * nat 3 \<le> length (replicate 4096 (0 :: int16)) \<and>
   64 * nat 3 \<le> length (replicate 192 (2 :: int16)) \<and>
   (nat 2 - 1) * (SWIFFT_N * SWIFFT_M) + 64 * nat 3 \<le> length (replicate 4096 (5 :: int16)) \<and>
   nat 2 * 64 \<le> length (replicate 128 (0 :: int16)) \<and>
   (\<exists>R. SWIFFT_fftMultiple (sample_iset 1 0) (\<lambda>i. 0) 2 (replicate 512 3) (replicate 512 1) 3
           (replicate 4096 0) = Some R \<and>
      load R (1 * SWIFFT_N * SWIFFT_M)
        (min (64 * (nat 3 div SWIFFT_O (sample_iset 1 0) * SWIFFT_O (sample_iset 1 0)))
           (SWIFFT_N * SWIFFT_M))
      = take (min (64 * (nat 3 div SWIFFT_O (sample_iset 1 0) * SWIFFT_O (sample_iset 1 0)))
                (SWIFFT_N * SWIFFT_M))
          (fft_spec (sample_iset 1 0) (load (replicate 512 3) (1 * SWIFFT_INPUT_BLOCK_SIZE) (8 * nat 3))
             (load (replicate 512 1) (1 * SWIFFT_INPUT_BLOCK_SIZE) (8 * nat 3)) (nat 3))) \<and>
   (\<exists>R. SWIFFT_fftsumMultiple (sample_iset 1 0) 2 (replicate 192 2) (replicate 4096 5) 3
           (replicate 128 0) = Some R \<and>
      load R (1 * 64) 64
      = fftsum_spec (sample_iset 1 0) (load (replicate 192 2) 0 (64 * nat 3))
          (load (replicate 4096 5) (1 * SWIFFT_N * SWIFFT_M) (64 * nat 3)) (nat 3))"
proof -
  have NM: "SWIFFT_N * SWIFFT_M = 2048" "SWIFFT_INPUT_BLOCK_SIZE = 256"
    by (simp_all add: SWIFFT_N_def SWIFFT_M_def SWIFFT_INPUT_BLOCK_SIZE_def)
  have h1: "iset_ok (sample_iset 1 0)"
    by (rule sample_iset_ok) simp
  have h2: "(1::nat) < nat 2" by simp
  have h3: "strides_fit 2 (SWIFFT_N * SWIFFT_M)"
    by (simp add: strides_fit_def INT_MAX_def NM)
  have h4: "(nat 2 - 1) * SWIFFT_INPUT_BLOCK_SIZE + 8 * nat 3 \<le> length (replicate 512 (3 :: BitSequence))"
    and h5: "(nat 2 - 1) * SWIFFT_INPUT_BLOCK_SIZE + 8 * nat 3 \<le> length (replicate 512 (1 :: BitSequence))"
    and h6: "(nat 2 - 1) * (SWIFFT_N * SWIFFT_M) + 64 * nat 3 \<le> length (replicate 4096 (0 :: int16))"
    and h7: "64 * nat 3 \<le> length (replicate 192 (2 :: int16))"
    and h8: "(nat 2 - 1) * (SWIFFT_N * SWIFFT_M) + 64 * nat 3 \<le> length (replicate 4096 (5 :: int16))"
    and h9: "nat 2 * 64 \<le> length (replicate 128 (0 :: int16))"
    by (simp_all add: NM)
  from batched_fft_stride_is_N_M[OF h1 h2 h3 h4 h5 h6 h7 h8 h9, where junk = "\<lambda>i. 0"]
    h1 h2 h3 h4 h5 h6 h7 h8 h9
  show ?thesis by blast
qed

text \<open>
  C5, as stated: after every exposed operation, \<^verbatim>\<open>Set\<close> among them, each of the 64 elements
  of an output hash block lies in the residue system that \<^verbatim>\<open>modP\<close> chooses. \<^verbatim>\<open>SWIFFT_Set_\<close>
  is a \<^verbatim>\<open>memcpy\<close> of the operand and reduces nothing: on an operand block of 64 elements 7000
  it leaves 64 elements 7000, which lie neither in \<open>{0, \<dots>, 256}\<close> nor in \<open>{- 128, \<dots>, 128}\<close>,
  the systems of \<^verbatim>\<open>modP\<close> as the spec describes it; and so does \<^verbatim>\<open>SWIFFT_SetMultiple_\<close>.
\<close>

theorem Set_output_not_canonical:
  "SWIFFT_Set (replicate 64 0) 0 (replicate 64 7000) 0 = replicate 64 7000 \<and>
   \<not> canonical_block (sample_iset 0 0) (load (SWIFFT_Set (replicate 64 0) 0 (replicate 64 7000) 0) 0 64) \<and>
   \<not> canonical_block (sample_iset 0 (- 128))
       (load (SWIFFT_Set (replicate 64 0) 0 (replicate 64 7000) 0) 0 64) \<and>
   SWIFFT_SetMultiple 1 (replicate 64 0) (replicate 64 7000) = Some (replicate 64 7000) \<and>
   \<not> canonical_block (sample_iset 0 0) (block_of 64 (replicate 64 7000) 0)"
proof -
  have s: "SWIFFT_Set (replicate 64 0) 0 (replicate 64 7000) 0 = replicate 64 7000"
    by (simp add: SWIFFT_Set_def OUTPUT_BLOCK_ELEMS_64 load_def store_def)
  have b: "in_int16 0" "in_int16 (0 + 256)" "in_int16 (- 128)" "in_int16 (- 128 + 256)"
    by (simp_all add: in_int16_def)
  have v: "sint (7000 :: int16) = 7000"
    using sint_word_of_int_16[of 7000] by simp
  have n0: "\<not> canonical_block (sample_iset 0 0) (replicate 64 7000)"
    unfolding canonical_block_sys[OF sample_modP b(1,2)] by (simp add: list_all_iff v)
  have n1: "\<not> canonical_block (sample_iset 0 (- 128)) (replicate 64 7000)"
    unfolding canonical_block_sys[OF sample_modP b(3,4)] by (simp add: list_all_iff v)
  have f: "strides_fit 1 SWIFFT_OUTPUT_BLOCK_SIZE"
    by (simp add: strides_fit_def INT_MAX_def)
  have m: "SWIFFT_SetMultiple 1 (replicate 64 0) (replicate 64 7000) = Some (replicate 64 7000)"
    unfolding SWIFFT_SetMultiple_fold[OF f] by (simp add: s)
  show ?thesis
    using n0 n1 unfolding s m by (simp add: load_def block_of_def)
qed

text \<open>
  C5, amended. For every exposed operation that produces hash blocks other than \<^verbatim>\<open>Set\<close> and
  \<^verbatim>\<open>SetMultiple\<close> (\<^verbatim>\<open>Compute\<close>, \<^verbatim>\<open>ComputeSigned\<close>, \<^verbatim>\<open>Add\<close>, \<^verbatim>\<open>Sub\<close>, \<^verbatim>\<open>Mul\<close>, \<^verbatim>\<open>ConstSet\<close>,
  \<^verbatim>\<open>ConstAdd\<close>, \<^verbatim>\<open>ConstSub\<close>, \<^verbatim>\<open>ConstMul\<close> and their batched forms) and every input, whatever
  its elements are, each of the 64 elements of each output hash block is a value of \<^verbatim>\<open>modP\<close>,
  that is, lies in the one residue system that \<^verbatim>\<open>modP\<close> chooses; a batched form returns when
  the offsets of its blocks can be computed in \<^verbatim>\<open>int\<close>. \<^verbatim>\<open>Set\<close> and \<^verbatim>\<open>SetMultiple\<close> leave in the
  output block the 64 elements of the operand block, so that it is canonical exactly when the
  operand block is. When \<^verbatim>\<open>modP\<close> is the canonical reduction into \<open>{lo, \<dots>, lo + 256}\<close>, a
  canonical block is 64 elements of that range.
\<close>

theorem outputs_canonical_or_copied:
  assumes "iset_ok K"
    and "64 * 32 \<le> length (SWIFFT_PI_key K)"
    and "pout + 64 \<le> length output"
    and "popd + 64 \<le> length operand"
    and "pin + 256 \<le> length input"
    and "psg + 256 \<le> length sign"
    and "i < nat nblocks"
    and "nat nblocks * 64 \<le> length output"
    and "nat nblocks * 64 \<le> length operand"
    and "nat nblocks * 256 \<le> length input"
    and "nat nblocks * 256 \<le> length sign"
    and "nat nblocks \<le> length cs"
  shows "canonical_block K (load (SWIFFT_Compute K junk input pin output pout) pout 64) \<and>
    canonical_block K (load (SWIFFT_ComputeSigned K junk input pin sign psg output pout) pout 64) \<and>
    canonical_block K (load (SWIFFT_Add K output pout operand popd) pout 64) \<and>
    canonical_block K (load (SWIFFT_Sub K output pout operand popd) pout 64) \<and>
    canonical_block K (load (SWIFFT_Mul K output pout operand popd) pout 64) \<and>
    canonical_block K (load (SWIFFT_ConstSet K output pout c) pout 64) \<and>
    canonical_block K (load (SWIFFT_ConstAdd K output pout c) pout 64) \<and>
    canonical_block K (load (SWIFFT_ConstSub K output pout c) pout 64) \<and>
    canonical_block K (load (SWIFFT_ConstMul K output pout c) pout 64) \<and>
    load (SWIFFT_Set output pout operand popd) pout 64 = load operand popd 64 \<and>
    (strides_fit nblocks SWIFFT_INPUT_BLOCK_SIZE \<longrightarrow>
      (\<exists>R. SWIFFT_ComputeMultiple K junk nblocks input output = Some R \<and>
           canonical_block K (block_of 64 R i)) \<and>
      (\<exists>R. SWIFFT_ComputeMultipleSigned K junk nblocks input sign output = Some R \<and>
           canonical_block K (block_of 64 R i))) \<and>
    (strides_fit nblocks SWIFFT_OUTPUT_BLOCK_SIZE \<longrightarrow>
      (\<exists>R. SWIFFT_AddMultiple K nblocks output operand = Some R \<and>
           canonical_block K (block_of 64 R i)) \<and>
      (\<exists>R. SWIFFT_SubMultiple K nblocks output operand = Some R \<and>
           canonical_block K (block_of 64 R i)) \<and>
      (\<exists>R. SWIFFT_MulMultiple K nblocks output operand = Some R \<and>
           canonical_block K (block_of 64 R i)) \<and>
      (\<exists>R. SWIFFT_ConstSetMultiple K nblocks output cs = Some R \<and>
           canonical_block K (block_of 64 R i)) \<and>
      (\<exists>R. SWIFFT_ConstAddMultiple K nblocks output cs = Some R \<and>
           canonical_block K (block_of 64 R i)) \<and>
      (\<exists>R. SWIFFT_ConstSubMultiple K nblocks output cs = Some R \<and>
           canonical_block K (block_of 64 R i)) \<and>
      (\<exists>R. SWIFFT_ConstMulMultiple K nblocks output cs = Some R \<and>
           canonical_block K (block_of 64 R i)) \<and>
      (\<exists>R. SWIFFT_SetMultiple nblocks output operand = Some R \<and>
           block_of 64 R i = block_of 64 operand i)) \<and>
    (SWIFFT_modP K = modP_sys lo \<and> in_int16 lo \<and> in_int16 (lo + 256) \<longrightarrow>
      canonical_block K blk =
        (length blk = 64 \<and> list_all (\<lambda>x. lo \<le> sint x \<and> sint x \<le> lo + 256) blk))"
proof -
  have key: "2048 \<le> length (SWIFFT_PI_key K)"
    using assms(2) by simp
  have s0: "0 + 256 \<le> length SWIFFT_sign0"
    by (simp add: SWIFFT_sign0_def SWIFFT_INPUT_BLOCK_SIZE_def)
  have c1: "canonical_block K (load (SWIFFT_Compute K junk input pin output pout) pout 64)"
    unfolding SWIFFT_Compute_def by (rule canon_compute[OF assms(1) key assms(5) s0 assms(3)])
  have c2: "canonical_block K (load (SWIFFT_ComputeSigned K junk input pin sign psg output pout) pout 64)"
    unfolding SWIFFT_ComputeSigned_def by (rule canon_compute[OF assms(1) key assms(5,6,3)])
  note single = c1 c2
    canon_Add[OF assms(1,3,4)] canon_Sub[OF assms(1,3,4)] canon_Mul[OF assms(1,3,4)]
    canon_ConstSet[OF assms(1,3), of c] canon_ConstAdd[OF assms(1,3), of c]
    canon_ConstSub[OF assms(1,3), of c] canon_ConstMul[OF assms(1,3), of c]
    Set_copies[OF assms(3,4)]
  note batch = canon_ComputeMultiple[OF assms(1) key assms(10,8,7), where junk = junk]
    canon_ComputeMultipleSigned[OF assms(1) key assms(10,11,8,7), where junk = junk]
    canon_AddMultiple[OF assms(1,8,9,7)] canon_SubMultiple[OF assms(1,8,9,7)]
    canon_MulMultiple[OF assms(1,8,9,7)]
    canon_ConstSetMultiple[OF assms(1,8,7), where cs = cs]
    canon_ConstAddMultiple[OF assms(1,8,7), where cs = cs]
    canon_ConstSubMultiple[OF assms(1,8,7), where cs = cs]
    canon_ConstMulMultiple[OF assms(1,8,7), where cs = cs]
    SetMultiple_copies[OF assms(8,9,7)]
  have sys: "canonical_block K blk =
        (length blk = 64 \<and> list_all (\<lambda>x. lo \<le> sint x \<and> sint x \<le> lo + 256) blk)"
    if "SWIFFT_modP K = modP_sys lo \<and> in_int16 lo \<and> in_int16 (lo + 256)"
    using that by (intro canonical_block_sys) simp_all
  show ?thesis
    by (intro conjI impI; (rule single | erule batch | erule sys))
qed

theorem outputs_canonical_or_copied_witness:
  "iset_ok (sample_iset 1 0) \<and>
   64 * 32 \<le> length (SWIFFT_PI_key (sample_iset 1 0)) \<and>
   64 + 64 \<le> length (replicate 128 (200 :: int16)) \<and>
   0 + 64 \<le> length (replicate 128 (7000 :: int16)) \<and>
   256 + 256 \<le> length (replicate 512 (3 :: BitSequence)) \<and>
   0 + 256 \<le> length (replicate 512 (1 :: BitSequence)) \<and>
   (1::nat) < nat 2 \<and>
   nat 2 * 64 \<le> length (replicate 128 (200 :: int16)) \<and>
   nat 2 * 64 \<le> length (replicate 128 (7000 :: int16)) \<and>
   nat 2 * 256 \<le> length (replicate 512 (3 :: BitSequence)) \<and>
   nat 2 * 256 \<le> length (replicate 512 (1 :: BitSequence)) \<and>
   nat 2 \<le> length [300, 43 :: int16] \<and>
   strides_fit 2 SWIFFT_INPUT_BLOCK_SIZE \<and>
   strides_fit 2 SWIFFT_OUTPUT_BLOCK_SIZE \<and>
   SWIFFT_modP (sample_iset 1 0) = modP_sys 0 \<and> in_int16 0 \<and> in_int16 (0 + 256) \<and>
   canonical_block (sample_iset 1 0) (load (SWIFFT_Compute (sample_iset 1 0) (\<lambda>i. 0) (replicate 512 3) 256 (replicate 128 200) 64) 64 64) \<and>
   canonical_block (sample_iset 1 0) (load (SWIFFT_ComputeSigned (sample_iset 1 0) (\<lambda>i. 0) (replicate 512 3) 256 (replicate 512 1) 0 (replicate 128 200) 64) 64 64) \<and>
   canonical_block (sample_iset 1 0) (load (SWIFFT_Add (sample_iset 1 0) (replicate 128 200) 64 (replicate 128 7000) 0) 64 64) \<and>
   canonical_block (sample_iset 1 0) (load (SWIFFT_Sub (sample_iset 1 0) (replicate 128 200) 64 (replicate 128 7000) 0) 64 64) \<and>
   canonical_block (sample_iset 1 0) (load (SWIFFT_Mul (sample_iset 1 0) (replicate 128 200) 64 (replicate 128 7000) 0) 64 64) \<and>
   canonical_block (sample_iset 1 0) (load (SWIFFT_ConstSet (sample_iset 1 0) (replicate 128 200) 64 300) 64 64) \<and>
   canonical_block (sample_iset 1 0) (load (SWIFFT_ConstAdd (sample_iset 1 0) (replicate 128 200) 64 300) 64 64) \<and>
   canonical_block (sample_iset 1 0) (load (SWIFFT_ConstSub (sample_iset 1 0) (replicate 128 200) 64 300) 64 64) \<and>
   canonical_block (sample_iset 1 0) (load (SWIFFT_ConstMul (sample_iset 1 0) (replicate 128 200) 64 300) 64 64) \<and>
   load (SWIFFT_Set (replicate 128 200) 64 (replicate 128 7000) 0) 64 64 = load (replicate 128 7000) 0 64 \<and>
   (\<exists>R. SWIFFT_ComputeMultiple (sample_iset 1 0) (\<lambda>i. 0) 2 (replicate 512 3) (replicate 128 200) = Some R \<and>
        canonical_block (sample_iset 1 0) (block_of 64 R 1)) \<and>
   (\<exists>R. SWIFFT_ComputeMultipleSigned (sample_iset 1 0) (\<lambda>i. 0) 2 (replicate 512 3) (replicate 512 1) (replicate 128 200) = Some R \<and>
        canonical_block (sample_iset 1 0) (block_of 64 R 1)) \<and>
   (\<exists>R. SWIFFT_AddMultiple (sample_iset 1 0) 2 (replicate 128 200) (replicate 128 7000) = Some R \<and>
        canonical_block (sample_iset 1 0) (block_of 64 R 1)) \<and>
   (\<exists>R. SWIFFT_SubMultiple (sample_iset 1 0) 2 (replicate 128 200) (replicate 128 7000) = Some R \<and>
        canonical_block (sample_iset 1 0) (block_of 64 R 1)) \<and>
   (\<exists>R. SWIFFT_MulMultiple (sample_iset 1 0) 2 (replicate 128 200) (replicate 128 7000) = Some R \<and>
        canonical_block (sample_iset 1 0) (block_of 64 R 1)) \<and>
   (\<exists>R. SWIFFT_ConstSetMultiple (sample_iset 1 0) 2 (replicate 128 200) [300, 43] = Some R \<and>
        canonical_block (sample_iset 1 0) (block_of 64 R 1)) \<and>
   (\<exists>R. SWIFFT_ConstAddMultiple (sample_iset 1 0) 2 (replicate 128 200) [300, 43] = Some R \<and>
        canonical_block (sample_iset 1 0) (block_of 64 R 1)) \<and>
   (\<exists>R. SWIFFT_ConstSubMultiple (sample_iset 1 0) 2 (replicate 128 200) [300, 43] = Some R \<and>
        canonical_block (sample_iset 1 0) (block_of 64 R 1)) \<and>
   (\<exists>R. SWIFFT_ConstMulMultiple (sample_iset 1 0) 2 (replicate 128 200) [300, 43] = Some R \<and>
        canonical_block (sample_iset 1 0) (block_of 64 R 1)) \<and>
   (\<exists>R. SWIFFT_SetMultiple 2 (replicate 128 200) (replicate 128 7000) = Some R \<and>
        block_of 64 R 1 = block_of 64 (replicate 128 7000) 1) \<and>
   canonical_block (sample_iset 1 0) (replicate 64 256) =
     (length (replicate 64 (256 :: int16)) = 64 \<and>
      list_all (\<lambda>x. 0 \<le> sint x \<and> sint x \<le> 0 + 256) (replicate 64 (256 :: int16)))"
proof -
  have h1: "iset_ok (sample_iset 1 0)"
    by (rule sample_iset_ok) simp
  have h2: "64 * 32 \<le> length (SWIFFT_PI_key (sample_iset 1 0))"
    by (simp add: sample_key)
  have h3: "64 + 64 \<le> length (replicate 128 (200 :: int16))"
    and h4: "0 + 64 \<le> length (replicate 128 (7000 :: int16))"
    and h5: "256 + 256 \<le> length (replicate 512 (3 :: BitSequence))"
    and h6: "0 + 256 \<le> length (replicate 512 (1 :: BitSequence))"
    and h7: "(1::nat) < nat 2"
    and h8: "nat 2 * 64 \<le> length (replicate 128 (200 :: int16))"
    and h9: "nat 2 * 64 \<le> length (replicate 128 (7000 :: int16))"
    and h10: "nat 2 * 256 \<le> length (replicate 512 (3 :: BitSequence))"
    and h11: "nat 2 * 256 \<le> length (replicate 512 (1 :: BitSequence))"
    and h12: "nat 2 \<le> length [300, 43 :: int16]"
    by simp_all
  have f: "strides_fit 2 SWIFFT_INPUT_BLOCK_SIZE" "strides_fit 2 SWIFFT_OUTPUT_BLOCK_SIZE"
    by (simp_all add: strides_fit_def INT_MAX_def SWIFFT_INPUT_BLOCK_SIZE_def
        SWIFFT_OUTPUT_BLOCK_SIZE_def)
  have s: "SWIFFT_modP (sample_iset 1 0) = modP_sys 0" "in_int16 0" "in_int16 (0 + 256)"
    by (simp_all add: sample_modP in_int16_def)
  from outputs_canonical_or_copied[OF h1 h2 h3 h4 h5 h6 h7 h8 h9 h10 h11 h12,
      of "\<lambda>i. 0" 300 0 "replicate 64 256"]
    h1 h2 h3 h4 h5 h6 h7 h8 h9 h10 h11 h12 f s
  show ?thesis by (simp only: simp_thms)
qed




end
